theory Spec2Isabelle
  imports Main "HOL-Library.Sublist"
begin

section \<open>Strings as the program uses them\<close>

text \<open>
  Python strings are modelled as \<open>string\<close>, every character standing for a code point
  below 256. The predicates below are those of \<open>str.strip\<close>, \<open>str.split\<close>,
  \<open>str.splitlines\<close> and \<open>str.lower\<close> on that range.
\<close>

definition is_space :: "char \<Rightarrow> bool" where
  "is_space c =
     (let n = (of_char c :: nat)
      in (9 \<le> n \<and> n \<le> 13) \<or> (28 \<le> n \<and> n \<le> 32) \<or> n = 133 \<or> n = 160)"

definition is_linebreak :: "char \<Rightarrow> bool" where
  "is_linebreak c =
     (let n = (of_char c :: nat)
      in (10 \<le> n \<and> n \<le> 13) \<or> (28 \<le> n \<and> n \<le> 30) \<or> n = 133)"

definition lower_char :: "char \<Rightarrow> char" where
  "lower_char c =
     (let n = (of_char c :: nat)
      in if (65 \<le> n \<and> n \<le> 90) \<or> (192 \<le> n \<and> n \<le> 222 \<and> n \<noteq> 215)
         then char_of (n + 32) else c)"

definition lower :: "string \<Rightarrow> string" where
  "lower s = map lower_char s"

definition strip :: "string \<Rightarrow> string" where
  "strip s = rev (dropWhile is_space (rev (dropWhile is_space s)))"

text \<open>\<open>sub in s\<close>: \<open>sub\<close> occurs in \<open>s\<close> as a contiguous substring.\<close>

fun contains :: "string \<Rightarrow> string \<Rightarrow> bool" where
  "contains sub [] = (sub = [])"
| "contains sub (c # cs) = (prefix sub (c # cs) \<or> contains sub cs)"

text \<open>\<open>s.split()\<close>: the maximal runs of non-whitespace characters.\<close>

fun split_ws_from :: "string \<Rightarrow> string \<Rightarrow> string list" where
  "split_ws_from cur [] = (if cur = [] then [] else [cur])"
| "split_ws_from cur (c # cs) =
     (if is_space c then (if cur = [] then [] else [cur]) @ split_ws_from [] cs
      else split_ws_from (cur @ [c]) cs)"

definition split_ws :: "string \<Rightarrow> string list" where
  "split_ws s = split_ws_from [] s"

text \<open>\<open>s.split(d)\<close> for a one-character separator: empty fields are kept.\<close>

fun split_on :: "char \<Rightarrow> string \<Rightarrow> string list" where
  "split_on d [] = [[]]"
| "split_on d (c # cs) =
     (if c = d then [] # split_on d cs
      else (case split_on d cs of
              [] \<Rightarrow> [[c]]
            | w # ws \<Rightarrow> (c # w) # ws))"

text \<open>\<open>s.splitlines()\<close>: a carriage return followed by a line feed is one boundary,
  and no empty last line is produced.\<close>

fun splitlines_from :: "string \<Rightarrow> string \<Rightarrow> string list" where
  "splitlines_from cur [] = (if cur = [] then [] else [cur])"
| "splitlines_from cur [c] =
     (if is_linebreak c then [cur] else [cur @ [c]])"
| "splitlines_from cur (c # d # cs) =
     (if c = CHR 0x0D \<and> d = CHR 0x0A then cur # splitlines_from [] cs
      else if is_linebreak c then cur # splitlines_from [] (d # cs)
      else splitlines_from (cur @ [c]) (d # cs))"

definition splitlines :: "string \<Rightarrow> string list" where
  "splitlines s = splitlines_from [] s"

text \<open>Iterating over an open text file: the lines, each with its line feed.\<close>

fun file_lines_from :: "string \<Rightarrow> string \<Rightarrow> string list" where
  "file_lines_from cur [] = (if cur = [] then [] else [cur])"
| "file_lines_from cur (c # cs) =
     (if c = CHR 0x0A then (cur @ [c]) # file_lines_from [] cs
      else file_lines_from (cur @ [c]) cs)"

definition file_lines :: "string \<Rightarrow> string list" where
  "file_lines s = file_lines_from [] s"

text \<open>\<open>sep.join(xs)\<close>.\<close>

fun join :: "string \<Rightarrow> string list \<Rightarrow> string" where
  "join sep [] = []"
| "join sep [x] = x"
| "join sep (x # y # ys) = x @ sep @ join sep (y # ys)"

text \<open>\<open>str(n)\<close> for an integer, as an f-string renders it.\<close>

definition digit_char :: "nat \<Rightarrow> char" where
  "digit_char n = char_of (48 + n)"

function str_nat :: "nat \<Rightarrow> string" where
  "str_nat n = (if n < 10 then [digit_char n] else str_nat (n div 10) @ [digit_char (n mod 10)])"
  by pat_completeness auto
termination
  by (relation "measure id") auto

definition str_int :: "int \<Rightarrow> string" where
  "str_int i = (if i < 0 then CHR ''-'' # str_nat (nat (- i)) else str_nat (nat i))"

section \<open>The environment and the state of a run\<close>

text \<open>Exceptions that the program lets escape.\<close>

datatype exn =
    UnboundLocalError
  | ValueError
  | IndexError
  | KeyError
  | TypeError
  | AttributeError
  | JSONDecodeError
  | UnicodeDecodeError
  | OverflowError
  | OSError

text \<open>A value as \<open>json.loads\<close> returns it; an object is the list of the items of its
  dictionary, whose keys are distinct.\<close>

datatype pyfloat = Finite int int | Infinite bool | NaN

datatype json =
    JObject "(string \<times> json) list"
  | JArray "json list"
  | JString string
  | JInt int
  | JFloat pyfloat
  | JBool bool
  | JNull

text \<open>Python's truth value of such a value (\<open>if snapshot_id:\<close>).\<close>

fun truthy :: "json \<Rightarrow> bool" where
  "truthy (JObject kvs) = (kvs \<noteq> [])"
| "truthy (JArray xs) = (xs \<noteq> [])"
| "truthy (JString s) = (s \<noteq> [])"
| "truthy (JInt i) = (i \<noteq> 0)"
| "truthy (JFloat (Finite m e)) = (m \<noteq> 0)"
| "truthy (JFloat _) = True"
| "truthy (JBool b) = b"
| "truthy JNull = False"

text \<open>
  What a finished external process leaves: its exit status and its two streams. A
  stream is the text its bytes decode to, or nothing when the bytes are not valid
  UTF-8, in which case \<open>decode\<close> raises.
\<close>

record proc_result =
  stdout :: "string option"
  stderr :: "string option"
  returncode :: int

text \<open>
  A node of the file system, as \<open>os.path.exists\<close> and \<open>open\<close> see it: nothing,
  something that exists and cannot be opened or read as text, or a file with the text
  that reading it yields (line ends already translated to line feeds).
\<close>

datatype fnode = Absent | Unreadable | File string

text \<open>
  Everything outside the program. \<open>proc k cmd\<close> is what the \<open>k\<close>-th process spawned
  during the run leaves when it runs \<open>cmd\<close>, so that every attempt of every command can
  end differently; it is an exception when spawning the process or waiting for it
  raises one. \<open>json_loads\<close>, \<open>json_dumps\<close> and \<open>repr\<close> are the library's
  parser, its indenting printer and its rendering of non-scalar values; \<open>clock\<close> is the
  run's time stamp and \<open>date_after d\<close> the date \<open>d\<close> days from now, absent when out of
  range.
\<close>

record env =
  proc :: "nat \<Rightarrow> string \<Rightarrow> exn + proc_result"
  fs :: "string \<Rightarrow> fnode"
  json_loads :: "string \<Rightarrow> json option"
  json_dumps :: "json \<Rightarrow> string"
  repr :: "json \<Rightarrow> string"
  clock :: string
  date_after :: "int \<Rightarrow> string option"

text \<open>
  What the program changes: the processes it has spawned (their command lines, in
  order), the delays it has slept, the lines it has printed, the entries appended to log
  files (file and message; the time prefix of an entry is left out), the lines appended
  to the snapshot registry, the summary file once written, and the global
  \<open>TTL_DURATION\<close>.
\<close>

record state =
  calls :: "string list"
  sleeps :: "int list"
  printed :: "string list"
  log :: "(string \<times> string) list"
  registry :: "string list"
  summary :: "(string \<times> string) option"
  TTL_DURATION :: int

definition print :: "string \<Rightarrow> state \<Rightarrow> state" where
  "print msg st = st\<lparr>printed := printed st @ [msg]\<rparr>"

definition write_log :: "string \<Rightarrow> string \<Rightarrow> state \<Rightarrow> state" where
  "write_log log_file message st = st\<lparr>log := log st @ [(log_file, message)]\<rparr>"

definition write_snapshot_rid :: "string \<Rightarrow> string \<Rightarrow> string \<Rightarrow> string \<Rightarrow> state \<Rightarrow> state" where
  "write_snapshot_rid snapshot_id snapshot_name expiration_date user_id st =
     st\<lparr>registry := registry st @
        [snapshot_id @ '','' @ snapshot_name @ '','' @ expiration_date @ '','' @ user_id]\<rparr>"

section \<open>The command executor\<close>

type_synonym cmd_result = "string \<times> string \<times> int"

text \<open>The first line printed for an attempt that exits with a non-zero status.\<close>

definition failure_notice :: "string \<Rightarrow> nat \<Rightarrow> string" where
  "failure_notice command attempt =
     ''Command failed (attempt '' @ str_int (int attempt + 1) @ ''): '' @ command"

text \<open>The rest of the \<open>else\<close> branch, once the standard error is decoded: a second line
  printed and, while retries remain, a third one and the delay.\<close>

definition report_failure :: "int \<Rightarrow> int \<Rightarrow> nat \<Rightarrow> string \<Rightarrow> state \<Rightarrow> state" where
  "report_failure max_retries delay attempt err st =
     (let st2 = print (''Error: '' @ strip err) st
      in if int attempt < max_retries - 1
         then (print (''Retrying in '' @ str_int delay @ '' seconds...'') st2)
                \<lparr>sleeps := sleeps st2 @ [delay]\<rparr>
         else st2)"

text \<open>
  The loop of \<open>run_az_command\<close> over the attempts still to make; \<open>prev\<close> is the process
  of the previous attempt, unbound before the first one. An attempt raises when the
  command holds a NUL character (\<open>create_subprocess_shell\<close> refuses it before any
  process exists), when spawning or waiting raises, and when a stream that is decoded
  is not valid UTF-8: both streams after a zero exit status, the standard error after a
  non-zero one, once the first line is printed.
\<close>

fun retry_loop ::
  "env \<Rightarrow> string \<Rightarrow> int \<Rightarrow> int \<Rightarrow> nat list \<Rightarrow> proc_result option \<Rightarrow> state
     \<Rightarrow> (exn + cmd_result) \<times> state" where
  "retry_loop e command max_retries delay [] prev st =
     (case prev of
        None \<Rightarrow> (Inl UnboundLocalError, st)
      | Some p \<Rightarrow>
          (case stderr p of
             None \<Rightarrow> (Inl UnicodeDecodeError, st)
           | Some err \<Rightarrow> (Inr ([], strip err, returncode p), st)))"
| "retry_loop e command max_retries delay (attempt # rest) prev st =
     (if CHR 0x00 \<in> set command then (Inl ValueError, st)
      else
        (case proc e (length (calls st)) command of
           Inl x \<Rightarrow> (Inl x, st\<lparr>calls := calls st @ [command]\<rparr>)
         | Inr p \<Rightarrow>
             (let st1 = st\<lparr>calls := calls st @ [command]\<rparr>
              in if returncode p = 0
                 then
                   (case stdout p of
                      None \<Rightarrow> (Inl UnicodeDecodeError, st1)
                    | Some out \<Rightarrow>
                        (case stderr p of
                           None \<Rightarrow> (Inl UnicodeDecodeError, st1)
                         | Some err \<Rightarrow> (Inr (strip out, strip err, returncode p), st1)))
                 else
                   (let st2 = print (failure_notice command attempt) st1
                    in case stderr p of
                         None \<Rightarrow> (Inl UnicodeDecodeError, st2)
                       | Some err \<Rightarrow>
                           retry_loop e command max_retries delay rest (Some p)
                             (report_failure max_retries delay attempt err st2)))))"

definition run_az_command ::
  "env \<Rightarrow> string \<Rightarrow> int \<Rightarrow> int \<Rightarrow> state \<Rightarrow> (exn + cmd_result) \<times> state" where
  "run_az_command e command max_retries delay st =
     retry_loop e command max_retries delay [0..<nat max_retries] None st"

section \<open>Snapshot names\<close>

definition snapshot_name_of :: "string \<Rightarrow> string \<Rightarrow> string \<Rightarrow> string" where
  "snapshot_name_of chg_number vm_name timestamp =
     ''RH_'' @ chg_number @ ''_'' @ vm_name @ ''_'' @ timestamp"

section \<open>The inventory resolver\<close>

definition log_dir :: string where
  "log_dir = ''logs''"

definition snap_rid_list_file :: string where
  "snap_rid_list_file = ''snap_rid_list.txt''"

definition inventory_file :: string where
  "inventory_file = ''linux_vm-inventory.csv''"

definition quote :: string where
  "quote = [CHR 0x27]"

definition nl :: string where
  "nl = [CHR 0x0A]"

definition exists :: "env \<Rightarrow> string \<Rightarrow> bool" where
  "exists e path = (fs e path \<noteq> Absent)"

text \<open>The scan of \<open>get_vm_info\<close> over the lines of the open inventory.\<close>

fun first_match :: "string \<Rightarrow> string list \<Rightarrow> string option" where
  "first_match hostname [] = None"
| "first_match hostname (line # rest) =
     (if contains hostname line then Some (strip line) else first_match hostname rest)"

definition get_vm_info :: "env \<Rightarrow> string \<Rightarrow> string \<Rightarrow> exn + string option" where
  "get_vm_info e hostname inventory_path =
     (case fs e inventory_path of
        File text \<Rightarrow> Inr (first_match hostname (file_lines text))
      | _ \<Rightarrow> Inl OSError)"

text \<open>\<open>exclude_keywords and any(keyword.lower() in vm_info.lower() ...)\<close>.\<close>

definition excluded_by :: "string list option \<Rightarrow> string \<Rightarrow> bool" where
  "excluded_by exclude_keywords vm_info =
     (case exclude_keywords of
        None \<Rightarrow> False
      | Some kws \<Rightarrow> list_ex (\<lambda>keyword. contains (lower keyword) (lower vm_info)) kws)"

definition warning :: "string \<Rightarrow> string" where
  "warning hostname = ''Warning: Information not found for hostname '' @ quote @ hostname @ quote"

text \<open>The loop of \<open>extract_vm_info\<close> over the host names, with its two lists.\<close>

fun resolve_loop ::
  "env \<Rightarrow> string list option \<Rightarrow> string list \<Rightarrow> string list \<Rightarrow> string list \<Rightarrow> state
     \<Rightarrow> (exn + string list \<times> string list) \<times> state" where
  "resolve_loop e kws [] vm_list excluded_vms st = (Inr (vm_list, excluded_vms), st)"
| "resolve_loop e kws (hostname # rest) vm_list excluded_vms st =
     (case get_vm_info e hostname inventory_file of
        Inl x \<Rightarrow> (Inl x, st)
      | Inr None \<Rightarrow>
          resolve_loop e kws rest vm_list excluded_vms
            (print (warning hostname) st)
      | Inr (Some vm_info) \<Rightarrow>
          (if vm_info \<noteq> [] then
             (if excluded_by kws vm_info
              then resolve_loop e kws rest vm_list (excluded_vms @ [hostname]) st
              else resolve_loop e kws rest (vm_list @ [vm_info]) excluded_vms st)
           else
             resolve_loop e kws rest vm_list excluded_vms
               (print (warning hostname) st)))"

text \<open>The pair that \<open>extract_vm_info\<close> returns: the list or \<open>None\<close>, and the error or \<open>None\<close>.\<close>

definition extract_vm_info ::
  "env \<Rightarrow> string \<Rightarrow> string list option \<Rightarrow> state
     \<Rightarrow> (exn + string list option \<times> string option) \<times> state" where
  "extract_vm_info e host_file exclude_keywords st =
     (if \<not> exists e inventory_file
      then (Inr (None, Some (''Error: Inventory file '' @ quote @ inventory_file @ quote @ '' not found.'')), st)
      else if \<not> exists e host_file
      then (Inr (None, Some (''Error: List file '' @ quote @ host_file @ quote @ '' not found.'')), st)
      else
        (case fs e host_file of
           File text \<Rightarrow>
             (case resolve_loop e exclude_keywords (splitlines text) [] [] st of
                (Inl x, st1) \<Rightarrow> (Inl x, st1)
              | (Inr (vm_list, excluded_vms), st1) \<Rightarrow>
                  (Inr (Some vm_list, None),
                   if excluded_vms \<noteq> []
                   then print (''Excluded VMs based on keywords: '' @ join '', '' excluded_vms) st1
                   else st1))
         | _ \<Rightarrow> (Inl OSError, st)))"

section \<open>The subscription grouper\<close>

text \<open>The \<open>defaultdict(list)\<close>, its keys in the order of their first insertion.\<close>

type_synonym groups = "(string \<times> (string \<times> string) list) list"

fun add_to_group :: "groups \<Rightarrow> string \<Rightarrow> string \<times> string \<Rightarrow> groups" where
  "add_to_group [] k v = [(k, [v])]"
| "add_to_group ((k', vs) # g) k v =
     (if k' = k then (k', vs @ [v]) # g else (k', vs) # add_to_group g k v)"

text \<open>One line of the list: the unpacking of \<open>line.split()\<close> raises unless there are
  exactly two tokens, and the index 2 raises unless there are three segments.\<close>

definition parse_line :: "string \<Rightarrow> exn + string \<times> string \<times> string" where
  "parse_line line =
     (case split_ws line of
        [resource_id, vm_name] \<Rightarrow>
          (let segments = split_on CHR ''/'' resource_id
           in if 2 < length segments then Inr (segments ! 2, resource_id, vm_name)
              else Inl IndexError)
      | _ \<Rightarrow> Inl ValueError)"

fun group_loop :: "string list \<Rightarrow> groups \<Rightarrow> exn + groups" where
  "group_loop [] grouped_vms = Inr grouped_vms"
| "group_loop (line # rest) grouped_vms =
     (case parse_line line of
        Inl x \<Rightarrow> Inl x
      | Inr (subscription_id, resource_id, vm_name) \<Rightarrow>
          group_loop rest (add_to_group grouped_vms subscription_id (resource_id, vm_name)))"

definition group_vms_by_subscription :: "string list \<Rightarrow> exn + groups" where
  "group_vms_by_subscription vm_list = group_loop vm_list []"

section \<open>The snapshot worker\<close>

text \<open>How an f-string renders a loaded value.\<close>

definition fmt :: "env \<Rightarrow> json \<Rightarrow> string" where
  "fmt e v =
     (case v of
        JString s \<Rightarrow> s
      | JInt i \<Rightarrow> str_int i
      | JBool b \<Rightarrow> (if b then ''True'' else ''False'')
      | JNull \<Rightarrow> ''None''
      | _ \<Rightarrow> repr e v)"

text \<open>\<open>v[k]\<close> and \<open>v.get(k)\<close> on a loaded value.\<close>

definition subscript :: "json \<Rightarrow> string \<Rightarrow> exn + json" where
  "subscript v k =
     (case v of
        JObject kvs \<Rightarrow> (case map_of kvs k of None \<Rightarrow> Inl KeyError | Some x \<Rightarrow> Inr x)
      | _ \<Rightarrow> Inl TypeError)"

definition dict_get :: "json \<Rightarrow> string \<Rightarrow> exn + json option" where
  "dict_get v k =
     (case v of
        JObject kvs \<Rightarrow> Inr (map_of kvs k)
      | _ \<Rightarrow> Inl AttributeError)"

definition get_current_user_id :: "env \<Rightarrow> state \<Rightarrow> (exn + string option) \<times> state" where
  "get_current_user_id e st =
     (case run_az_command e ''az account show --query user.name -o tsv'' 3 5 st of
        (Inl x, st1) \<Rightarrow> (Inl x, st1)
      | (Inr (out, err, rc), st1) \<Rightarrow>
          (if rc \<noteq> 0
           then (Inr None, print (''Failed to get current user ID. Error: '' @ err) st1)
           else (Inr (Some (strip out)), st1)))"

definition create_command :: "env \<Rightarrow> string \<Rightarrow> json \<Rightarrow> json \<Rightarrow> string \<Rightarrow> string" where
  "create_command e snapshot_name resource_group disk_id user_id =
     ''az snapshot create --name '' @ snapshot_name @ '' --resource-group '' @ fmt e resource_group
       @ '' --source '' @ fmt e disk_id @ '' --tags CreatedByUserId='' @ user_id @ '' drtier=NR''"

text \<open>\<open>process_vm\<close> returns the VM's name with either the snapshot's name or a reason.\<close>

type_synonym outcome = "string \<times> string"

definition process_vm ::
  "env \<Rightarrow> string \<Rightarrow> string \<Rightarrow> json \<Rightarrow> json \<Rightarrow> string \<Rightarrow> string \<Rightarrow> string \<Rightarrow> string \<Rightarrow> state
     \<Rightarrow> (exn + outcome) \<times> state" where
  "process_vm e resource_id vm_name resource_group disk_id chg_number timestamp lf user_id st =
     (let st1 = write_log lf (''Processing VM: '' @ vm_name) st;
          st2 = write_log lf (''Resource ID: '' @ resource_id) st1;
          st3 = write_log lf (''Resource group: '' @ fmt e resource_group) st2;
          st4 = write_log lf (''User ID: '' @ user_id) st3;
          snapshot_name = snapshot_name_of chg_number vm_name timestamp
      in case date_after e (TTL_DURATION st4) of
           None \<Rightarrow> (Inl OverflowError, st4)
         | Some expiration_date \<Rightarrow>
             (case run_az_command e (create_command e snapshot_name resource_group disk_id user_id) 3 5 st4 of
                (Inl x, st5) \<Rightarrow> (Inl x, st5)
              | (Inr (out, err, rc), st5) \<Rightarrow>
                  (if rc \<noteq> 0
                   then (Inr (vm_name, ''Failed to create snapshot''),
                         write_log lf (''Error: '' @ err)
                           (write_log lf (''Failed to create snapshot for VM: '' @ vm_name) st5))
                   else
                     (let st6 = write_log lf (''Snapshot created: '' @ snapshot_name) st5
                      in case json_loads e out of
                           None \<Rightarrow> (Inl JSONDecodeError, st6)
                         | Some snapshot_data \<Rightarrow>
                             (let st7 = write_log lf (json_dumps e snapshot_data) st6
                              in case dict_get snapshot_data ''id'' of
                                   Inl x \<Rightarrow> (Inl x, st7)
                                 | Inr (Some snapshot_id) \<Rightarrow>
                                     (if truthy snapshot_id
                                      then (Inr (vm_name, snapshot_name),
                                            write_log lf (''Snapshot resource ID added to snap_rid_list.txt: '' @ fmt e snapshot_id)
                                              (write_snapshot_rid (fmt e snapshot_id) snapshot_name expiration_date user_id st7))
                                      else (Inr (vm_name, ''Failed to extract snapshot ID''),
                                            write_log lf (''Warning: Could not extract snapshot resource ID for '' @ snapshot_name) st7))
                                 | Inr None \<Rightarrow>
                                     (Inr (vm_name, ''Failed to extract snapshot ID''),
                                      write_log lf (''Warning: Could not extract snapshot resource ID for '' @ snapshot_name) st7))))))"

section \<open>The orchestrator\<close>

text \<open>A worker created by \<open>asyncio.create_task\<close>: the arguments it will run with.\<close>

type_synonym task = "string \<times> string \<times> json \<times> json"

definition show_command :: "string \<Rightarrow> string" where
  "show_command resource_id =
     ''az vm show --ids '' @ resource_id @ '' --query '' @ quote
       @ ''{resourceGroup:resourceGroup, diskId:storageProfile.osDisk.managedDisk.id}'' @ quote
       @ '' -o json''"

text \<open>The inner loop of \<open>main\<close> over the VMs of one subscription.\<close>

fun fetch_details ::
  "env \<Rightarrow> string \<Rightarrow> (string \<times> string) list \<Rightarrow> task list \<Rightarrow> outcome list \<Rightarrow> state
     \<Rightarrow> (exn + task list \<times> outcome list) \<times> state" where
  "fetch_details e lf [] tasks failed_snapshots st = (Inr (tasks, failed_snapshots), st)"
| "fetch_details e lf ((resource_id, vm_name) # rest) tasks failed_snapshots st =
     (case run_az_command e (show_command resource_id) 3 5 st of
        (Inl x, st1) \<Rightarrow> (Inl x, st1)
      | (Inr (out, err, rc), st1) \<Rightarrow>
          (if rc \<noteq> 0
           then fetch_details e lf rest tasks
                  (failed_snapshots @ [(vm_name, ''Failed to get VM details'')])
                  (write_log lf (''Error: '' @ err)
                     (write_log lf (''Failed to get VM details for '' @ vm_name) st1))
           else
             (case json_loads e out of
                None \<Rightarrow> (Inl JSONDecodeError, st1)
              | Some vm_details \<Rightarrow>
                  (case subscript vm_details ''resourceGroup'' of
                     Inl x \<Rightarrow> (Inl x, st1)
                   | Inr resource_group \<Rightarrow>
                       (case subscript vm_details ''diskId'' of
                          Inl x \<Rightarrow> (Inl x, st1)
                        | Inr disk_id \<Rightarrow>
                            fetch_details e lf rest
                              (tasks @ [(resource_id, vm_name, resource_group, disk_id)])
                              failed_snapshots st1)))))"

text \<open>
  \<open>asyncio.gather\<close>: the workers of one subscription, each run to its end, in the order
  of their creation, which is the order of the results. The scheduler starts a worker
  at the first suspension after its creation and may interleave the processes of the
  workers and of the loop in another order; since \<open>proc\<close> gives every spawned process
  an outcome of its own, each combination of outcomes is covered, and the lists of
  results do not depend on the order.
\<close>

fun gather ::
  "env \<Rightarrow> string \<Rightarrow> string \<Rightarrow> string \<Rightarrow> string \<Rightarrow> task list \<Rightarrow> state
     \<Rightarrow> (exn + outcome list) \<times> state" where
  "gather e chg_number timestamp lf user_id [] st = (Inr [], st)"
| "gather e chg_number timestamp lf user_id ((resource_id, vm_name, resource_group, disk_id) # rest) st =
     (case process_vm e resource_id vm_name resource_group disk_id chg_number timestamp lf user_id st of
        (Inl x, st1) \<Rightarrow> (Inl x, st1)
      | (Inr r, st1) \<Rightarrow>
          (case gather e chg_number timestamp lf user_id rest st1 of
             (Inl x, st2) \<Rightarrow> (Inl x, st2)
           | (Inr results, st2) \<Rightarrow> (Inr (r # results), st2)))"

text \<open>The loop over the results: a result without the word \<open>Failed\<close> is a success.\<close>

fun collect ::
  "outcome list \<Rightarrow> outcome list \<Rightarrow> outcome list \<Rightarrow> outcome list \<times> outcome list" where
  "collect [] successful_snapshots failed_snapshots = (successful_snapshots, failed_snapshots)"
| "collect ((vm_name, result) # rest) successful_snapshots failed_snapshots =
     (if \<not> contains ''Failed'' result
      then collect rest (successful_snapshots @ [(vm_name, result)]) failed_snapshots
      else collect rest successful_snapshots (failed_snapshots @ [(vm_name, result)]))"

text \<open>The outer loop of \<open>main\<close> over the subscriptions.\<close>

fun run_groups ::
  "env \<Rightarrow> string \<Rightarrow> string \<Rightarrow> string \<Rightarrow> string \<Rightarrow> groups \<Rightarrow> outcome list \<Rightarrow> outcome list \<Rightarrow> state
     \<Rightarrow> (exn + outcome list \<times> outcome list) \<times> state" where
  "run_groups e chg_number timestamp lf user_id [] successful_snapshots failed_snapshots st =
     (Inr (successful_snapshots, failed_snapshots), st)"
| "run_groups e chg_number timestamp lf user_id ((subscription_id, vms) # rest)
       successful_snapshots failed_snapshots st =
     (case run_az_command e (''az account set --subscription '' @ subscription_id) 3 5 st of
        (Inl x, st1) \<Rightarrow> (Inl x, st1)
      | (Inr (out, err, rc), st1) \<Rightarrow>
          (if rc \<noteq> 0
           then run_groups e chg_number timestamp lf user_id rest successful_snapshots
                  (failed_snapshots @ map (\<lambda>(_, vm_name). (vm_name, ''Failed to set subscription'')) vms)
                  (write_log lf (''Error: '' @ err)
                     (write_log lf (''Failed to set subscription ID: '' @ subscription_id) st1))
           else
             (case fetch_details e lf vms [] failed_snapshots
                     (write_log lf (''Switched to subscription: '' @ subscription_id) st1) of
                (Inl x, st2) \<Rightarrow> (Inl x, st2)
              | (Inr (tasks, failed1), st2) \<Rightarrow>
                  (case gather e chg_number timestamp lf user_id tasks st2 of
                     (Inl x, st3) \<Rightarrow> (Inl x, st3)
                   | (Inr results, st3) \<Rightarrow>
                       (case collect results successful_snapshots failed1 of
                          (successful2, failed2) \<Rightarrow>
                            run_groups e chg_number timestamp lf user_id rest successful2 failed2 st3)))))"

text \<open>
  What \<open>main\<close> returns: the error dictionary or the dictionary of counts and paths.
  The change number is taken as the text an f-string renders it to; \<open>os.makedirs\<close>
  and the writes to files are taken to succeed.
\<close>

record run_summary =
  total_vms :: nat
  successful_snapshots :: nat
  failed_snapshots :: nat
  log_file :: string
  summary_file :: string
  snap_rid_list :: string

datatype run_result = Error string | Summary run_summary

definition summary_text ::
  "nat \<Rightarrow> outcome list \<Rightarrow> outcome list \<Rightarrow> int \<Rightarrow> string" where
  "summary_text n_total succeeded failed ttl =
     ''Self-Destruct Snapshot Creation Summary'' @ nl
     @ ''======================================='' @ nl @ nl
     @ ''Total VMs processed: '' @ str_nat n_total @ nl
     @ ''Successful snapshots: '' @ str_nat (length succeeded) @ nl
     @ ''Failed snapshots: '' @ str_nat (length failed) @ nl
     @ ''Time-to-Live: '' @ str_int ttl @ '' days'' @ nl @ nl
     @ ''Successful snapshots:'' @ nl
     @ concat (map (\<lambda>(vm, snapshot). ''- '' @ vm @ '': '' @ snapshot @ nl) succeeded)
     @ nl @ ''Failed snapshots:'' @ nl
     @ concat (map (\<lambda>(vm, reason). ''- '' @ vm @ '': '' @ reason @ nl) failed)"

definition main ::
  "env \<Rightarrow> string \<Rightarrow> string \<Rightarrow> int \<Rightarrow> string list option \<Rightarrow> state
     \<Rightarrow> (exn + run_result) \<times> state" where
  "main e host_file chg_number ttl_duration exclude_keywords st =
     (let st1 = st\<lparr>TTL_DURATION := ttl_duration\<rparr>;
          timestamp = clock e;
          lf = log_dir @ ''/'' @ ''snapshot_creation_log_'' @ timestamp @ ''.txt'';
          sf = log_dir @ ''/'' @ ''snapshot_summary_'' @ timestamp @ ''.txt'';
          st2 = write_log lf (''CHG Number: '' @ chg_number) st1;
          st3 = write_log lf (''Snapshot Time-to-Live: '' @ str_int (TTL_DURATION st2) @ '' days'') st2
      in case get_current_user_id e st3 of
           (Inl x, st4) \<Rightarrow> (Inl x, st4)
         | (Inr None, st4) \<Rightarrow>
             (Inr (Error ''Failed to retrieve user ID from Azure CLI. Ensure you are logged in with 'az login'.''), st4)
         | (Inr (Some user_id), st4) \<Rightarrow>
             (if user_id = []
              then (Inr (Error ''Failed to retrieve user ID from Azure CLI. Ensure you are logged in with 'az login'.''), st4)
              else
                (case extract_vm_info e host_file exclude_keywords (write_log lf (''User ID: '' @ user_id) st4) of
                   (Inl x, st5) \<Rightarrow> (Inl x, st5)
                 | (Inr (_, Some error), st5) \<Rightarrow> (Inr (Error error), st5)
                 | (Inr (None, None), st5) \<Rightarrow> (Inr (Error ''No valid VM information found.''), st5)
                 | (Inr (Some vm_list, None), st5) \<Rightarrow>
                     (if vm_list = []
                      then (Inr (Error ''No valid VM information found.''), st5)
                      else
                        (case group_vms_by_subscription vm_list of
                           Inl x \<Rightarrow> (Inl x, st5)
                         | Inr grouped_vms \<Rightarrow>
                             (case run_groups e chg_number timestamp lf user_id grouped_vms [] [] st5 of
                                (Inl x, st6) \<Rightarrow> (Inl x, st6)
                              | (Inr (succeeded, failed), st6) \<Rightarrow>
                                  (Inr (Summary
                                     \<lparr>total_vms = length vm_list,
                                      successful_snapshots = length succeeded,
                                      failed_snapshots = length failed,
                                      log_file = lf,
                                      summary_file = sf,
                                      snap_rid_list = snap_rid_list_file\<rparr>),
                                   st6\<lparr>summary := Some (sf,
                                     summary_text (length vm_list) succeeded failed (TTL_DURATION st6))\<rparr>)))))))"

section \<open>Notions used in the statements\<close>

text \<open>The lines on which one of the two statements of the grouping loop raises.\<close>

definition malformed :: "string \<Rightarrow> bool" where
  "malformed line =
     (length (split_ws line) \<noteq> 2 \<or> length (split_on CHR ''/'' (hd (split_ws line))) < 3)"

text \<open>The number of VMs held by a grouping.\<close>

definition group_total :: "groups \<Rightarrow> nat" where
  "group_total grouped_vms = sum_list (map (\<lambda>(subscription_id, vms). length vms) grouped_vms)"

text \<open>
  For the lines of an inventory: whether a host name has a match that is not blank, what
  \<open>get_vm_info\<close> returns for it, and whether the resolver keeps it or excludes it.
\<close>

definition found :: "string list \<Rightarrow> string \<Rightarrow> bool" where
  "found inventory hostname =
     (case first_match hostname inventory of None \<Rightarrow> False | Some vm_info \<Rightarrow> vm_info \<noteq> [])"

definition info_of :: "string list \<Rightarrow> string \<Rightarrow> string" where
  "info_of inventory hostname =
     (case first_match hostname inventory of None \<Rightarrow> [] | Some vm_info \<Rightarrow> vm_info)"

definition kept :: "string list \<Rightarrow> string list option \<Rightarrow> string \<Rightarrow> bool" where
  "kept inventory kws hostname =
     (found inventory hostname \<and> \<not> excluded_by kws (info_of inventory hostname))"

definition dropped :: "string list \<Rightarrow> string list option \<Rightarrow> string \<Rightarrow> bool" where
  "dropped inventory kws hostname =
     (found inventory hostname \<and> excluded_by kws (info_of inventory hostname))"

text \<open>A result that is a value, or the \<open>ValueError\<close> that a command with a NUL character
  raises.\<close>

definition unrefused :: "exn + 'a \<Rightarrow> bool" where
  "unrefused r = (\<forall>x. r = Inl x \<longrightarrow> x = ValueError)"

text \<open>An attempt that runs to its end with a non-zero exit status and a standard error
  that can be decoded.\<close>

definition failed_attempt :: "env \<Rightarrow> nat \<Rightarrow> string \<Rightarrow> bool" where
  "failed_attempt e k command =
     (case proc e k command of
        Inl x \<Rightarrow> False
      | Inr p \<Rightarrow> returncode p \<noteq> 0 \<and> stderr p \<noteq> None)"

text \<open>
  Well-formed responses: every process runs to its end and leaves streams that can be
  decoded and, when its status is 0, for a query of a VM's details an object with the
  two keys that \<open>main\<close> reads and for the creation of a snapshot an object.
\<close>

definition responses_parse :: "env \<Rightarrow> bool" where
  "responses_parse e =
     (\<forall>k cmd. \<exists>p out err.
        proc e k cmd = Inr p \<and> stdout p = Some out \<and> stderr p = Some err
        \<and> (returncode p = 0 \<longrightarrow>
             (prefix ''az vm show '' cmd \<longrightarrow>
                (\<exists>kvs rg d. json_loads e (strip out) = Some (JObject kvs)
                   \<and> map_of kvs ''resourceGroup'' = Some rg \<and> map_of kvs ''diskId'' = Some d))
             \<and> (prefix ''az snapshot create '' cmd \<longrightarrow>
                (\<exists>kvs. json_loads e (strip out) = Some (JObject kvs)))))"

section \<open>Concrete runs\<close>

text \<open>An empty initial state, an environment in which every process fails, and one in
  which every process fails with a standard error that is not valid UTF-8.\<close>

definition st0 :: state where
  "st0 = \<lparr>calls = [], sleeps = [], printed = [], log = [], registry = [], summary = None, TTL_DURATION = 7\<rparr>"

definition failing_env :: env where
  "failing_env = \<lparr>proc = (\<lambda>k cmd. Inr \<lparr>stdout = Some ''o'', stderr = Some (''e '' @ str_nat k @ nl), returncode = 2\<rparr>),
     fs = (\<lambda>p. Absent),
     json_loads = (\<lambda>_. None), json_dumps = (\<lambda>_. []), repr = (\<lambda>_. []),
     clock = ''0'', date_after = (\<lambda>_. Some ''1'')\<rparr>"

definition undecodable_env :: env where
  "undecodable_env = failing_env\<lparr>proc := (\<lambda>k cmd. Inr \<lparr>stdout = Some [], stderr = None, returncode = 1\<rparr>)\<rparr>"

text \<open>
  Scripted environments: the \<open>k\<close>-th spawned process leaves the \<open>k\<close>-th entry of a
  script and fails beyond it; the host list is the file \<open>h\<close>; the parser knows three
  documents.
\<close>

definition ok :: "string \<Rightarrow> proc_result" where
  "ok s = \<lparr>stdout = Some s, stderr = Some [], returncode = 0\<rparr>"

definition ko :: proc_result where
  "ko = \<lparr>stdout = Some [], stderr = Some ''e'', returncode = 1\<rparr>"

definition demo_loads :: "string \<Rightarrow> json option" where
  "demo_loads s =
     (if s = ''D'' then Some (JObject [(''resourceGroup'', JString ''g''), (''diskId'', JString ''d'')])
      else if s = ''J'' then Some (JObject [(''id'', JString ''i'')])
      else if s = ''E'' then Some (JObject [])
      else None)"

definition scripted_env :: "proc_result list \<Rightarrow> string \<Rightarrow> string \<Rightarrow> env" where
  "scripted_env script inventory hosts =
     \<lparr>proc = (\<lambda>k cmd. Inr (if k < length script then script ! k else ko)),
      fs = (\<lambda>p. if p = inventory_file then File inventory
                 else if p = ''h'' then File hosts else Absent),
      json_loads = demo_loads, json_dumps = (\<lambda>_. []), repr = (\<lambda>_. []),
      clock = ''0'', date_after = (\<lambda>_. Some ''1'')\<rparr>"

text \<open>
  A run of four VMs in two subscriptions: the first VM succeeds, the details of the
  second cannot be fetched, the snapshot of the third cannot be created, and the
  subscription of the fourth cannot be selected.
\<close>

definition mixed_env :: env where
  "mixed_env = scripted_env
     [ok ''u'', ok [], ok ''D'', ko, ko, ko, ok ''D'', ok ''J'']
     (''/s/A/x a'' @ nl @ ''/s/A/y b'' @ nl @ ''/s/A/z c'' @ nl @ ''/s/B/w d'' @ nl)
     (''a'' @ nl @ ''b'' @ nl @ ''c'' @ nl @ ''d'' @ nl)"

text \<open>A run of one VM whose name contains the word \<open>Failed\<close>, every command succeeding.\<close>

definition failed_name_env :: env where
  "failed_name_env = scripted_env [ok ''u'', ok [], ok ''D'', ok ''J'']
     (''/s/A/x Failed1'' @ nl) ''Failed1''"

text \<open>A create command that succeeds with an object that has no \<open>id\<close>.\<close>

definition no_id_env :: env where
  "no_id_env = scripted_env [ok ''E''] [] []"

text \<open>Inventories and host lists for the resolver: a line with a keyword, a host name that is
  not in the inventory, a blank line in the host list, and a blank first line in the inventory.\<close>

definition keyword_env :: env where
  "keyword_env = scripted_env [] (''/s/A/x a'' @ nl @ ''/s/B/y b-tmp'' @ nl) (''a'' @ nl @ ''b-tmp'')"

definition unknown_host_env :: env where
  "unknown_host_env = scripted_env [] (''/s/A/x a'' @ nl) (''zz'' @ nl @ ''a'')"

definition blank_host_env :: env where
  "blank_host_env = scripted_env [] (''/s/A/x a'' @ nl) (''a'' @ nl @ nl)"

definition blank_inventory_env :: env where
  "blank_inventory_env = scripted_env [] (nl @ ''/s/A/x a'' @ nl) (''a'' @ nl @ nl)"

section \<open>The executor gives up after \<open>max_retries\<close> failed attempts\<close>

lemma calls_print [simp]: "calls (print m st) = calls st"
  by (simp add: print_def)

lemma sleeps_print [simp]: "sleeps (print m st) = sleeps st"
  by (simp add: print_def)

lemma registry_print [simp]: "registry (print m st) = registry st"
  by (simp add: print_def)

lemma calls_write_log [simp]: "calls (write_log lf m st) = calls st"
  by (simp add: write_log_def)

lemma registry_write_log [simp]: "registry (write_log lf m st) = registry st"
  by (simp add: write_log_def)

lemma TTL_write_log [simp]: "TTL_DURATION (write_log lf m st) = TTL_DURATION st"
  by (simp add: write_log_def)

lemma calls_report_failure [simp]:
  "calls (report_failure m d a err st) = calls st"
  by (simp add: report_failure_def Let_def)

lemma registry_report_failure [simp]:
  "registry (report_failure m d a err st) = registry st"
  by (simp add: report_failure_def Let_def)

lemma sleeps_report_failure [simp]:
  "sleeps (report_failure m d a err st) = sleeps st @ (if int a < m - 1 then [d] else [])"
  by (simp add: report_failure_def Let_def)

lemma retry_loop_failed_step:
  assumes "CHR 0x00 \<notin> set c" and "proc e (length (calls st)) c = Inr p"
    and "returncode p \<noteq> 0" and "stderr p = Some err"
  shows "retry_loop e c m d (a # as) prev st =
           retry_loop e c m d as (Some p)
             (report_failure m d a err (print (failure_notice c a) (st\<lparr>calls := calls st @ [c]\<rparr>)))"
  using assms by (simp add: Let_def)

lemma retry_loop_all_fail:
  "\<forall>i<n - a. failed_attempt e (length (calls st) + i) command \<Longrightarrow>
   CHR 0x00 \<notin> set command \<Longrightarrow>
   int n = max_retries \<Longrightarrow>
   a < n \<or> (\<exists>p err. prev = Some p \<and> stderr p = Some err) \<Longrightarrow>
   retry_loop e command max_retries delay [a..<n] prev st = (r, st') \<Longrightarrow>
     (\<exists>p err. (if a < n then proc e (length (calls st) + (n - a) - 1) command = Inr p
                else prev = Some p)
        \<and> stderr p = Some err \<and> r = Inr ([], strip err, returncode p))
     \<and> calls st' = calls st @ replicate (n - a) command
     \<and> sleeps st' = sleeps st @ replicate (n - a - 1) delay"
proof (induction "n - a" arbitrary: a prev st)
  case 0
  then show ?case by auto
next
  case (Suc k)
  then have lt: "a < n" and k: "k = n - Suc a" by linarith+
  from lt have "0 < n - a" by simp
  with Suc.prems(1) have "failed_attempt e (length (calls st) + 0) command" by blast
  then obtain p0 err0 where p0: "proc e (length (calls st)) command = Inr p0"
    and nz: "returncode p0 \<noteq> 0" and err0: "stderr p0 = Some err0"
    by (auto simp: failed_attempt_def split: sum.splits)
  define st4 where
    "st4 = report_failure max_retries delay a err0
             (print (failure_notice command a) (st\<lparr>calls := calls st @ [command]\<rparr>))"
  have step: "retry_loop e command max_retries delay [a..<n] prev st =
                retry_loop e command max_retries delay [Suc a..<n] (Some p0) st4"
    using lt retry_loop_failed_step [OF Suc.prems(2) p0 nz err0]
    by (simp add: upt_conv_Cons st4_def)
  have c4: "calls st4 = calls st @ [command]"
    and s4: "sleeps st4 = sleeps st @ (if int a < max_retries - 1 then [delay] else [])"
    by (simp_all add: st4_def)
  have rest: "\<forall>i<n - Suc a. failed_attempt e (length (calls st4) + i) command"
  proof (intro allI impI)
    fix i assume "i < n - Suc a"
    then have "Suc i < n - a" by linarith
    with Suc.prems(1) have "failed_attempt e (length (calls st) + Suc i) command" by blast
    then show "failed_attempt e (length (calls st4) + i) command" by (simp add: c4)
  qed
  have prev': "Suc a < n \<or> (\<exists>p err. Some p0 = Some p \<and> stderr p = Some err)"
    using err0 by simp
  from Suc.prems(5) step
  have run: "retry_loop e command max_retries delay [Suc a..<n] (Some p0) st4 = (r, st')" by simp
  note ih = Suc.hyps(1) [OF k rest Suc.prems(2,3) prev' run]
  show ?case
  proof (cases "Suc a < n")
    case True
    then have "int a < max_retries - 1" using Suc.prems(3) by linarith
    moreover have "n - a = Suc (n - Suc a)" "n - Suc a = Suc (n - Suc a - 1)" using True by linarith+
    moreover have "length (calls st4) + (n - Suc a) - 1 = length (calls st) + (n - a) - 1"
      using True by (simp add: c4)
    ultimately show ?thesis using ih True lt c4 s4
      by (simp add: replicate_append_same)
  next
    case False
    then have "n = Suc a" using lt by linarith
    then show ?thesis using ih lt c4 s4 p0 Suc.prems(3) by auto
  qed
qed

text \<open>
  Claim C2, for a command without a NUL character and \<open>max_retries\<close> of at least 1: when
  every attempt runs to its end with a non-zero exit status and a standard error that
  can be decoded, \<open>run_az_command\<close> spawns the command exactly \<open>max_retries\<close> times,
  sleeps between the attempts only, and returns, as a value and not as an exception,
  the empty standard output, the stripped standard error and the non-zero exit status
  of the last attempt.
\<close>

theorem run_az_command_exhausted:
  assumes "1 \<le> max_retries"
    and "CHR 0x00 \<notin> set command"
    and "\<forall>i<nat max_retries. failed_attempt e (length (calls st) + i) command"
  shows "\<exists>p err.
           proc e (length (calls st) + nat max_retries - 1) command = Inr p
           \<and> stderr p = Some err
           \<and> returncode p \<noteq> 0
           \<and> fst (run_az_command e command max_retries delay st) = Inr ([], strip err, returncode p)
           \<and> calls (snd (run_az_command e command max_retries delay st)) =
               calls st @ replicate (nat max_retries) command
           \<and> sleeps (snd (run_az_command e command max_retries delay st)) =
               sleeps st @ replicate (nat max_retries - 1) delay"
proof -
  obtain r st' where run: "run_az_command e command max_retries delay st = (r, st')"
    by (cases "run_az_command e command max_retries delay st")
  have pos: "0 < nat max_retries" using assms(1) by simp
  have "\<forall>i<nat max_retries - 0. failed_attempt e (length (calls st) + i) command"
    using assms(3) by simp
  moreover have "int (nat max_retries) = max_retries" using assms(1) by simp
  moreover have "0 < nat max_retries \<or> (\<exists>p err. (None :: proc_result option) = Some p \<and> stderr p = Some err)"
    using pos by simp
  moreover have "retry_loop e command max_retries delay [0..<nat max_retries] None st = (r, st')"
    using run by (simp add: run_az_command_def)
  ultimately have res:
    "(\<exists>p err. (if 0 < nat max_retries
                 then proc e (length (calls st) + (nat max_retries - 0) - 1) command = Inr p
                 else None = Some p)
        \<and> stderr p = Some err \<and> r = Inr ([], strip err, returncode p))
     \<and> calls st' = calls st @ replicate (nat max_retries - 0) command
     \<and> sleeps st' = sleeps st @ replicate (nat max_retries - 0 - 1) delay"
    using assms(2) by (intro retry_loop_all_fail)
  then obtain p err where p: "proc e (length (calls st) + nat max_retries - 1) command = Inr p"
    and err: "stderr p = Some err" and r: "r = Inr ([], strip err, returncode p)"
    using pos by auto
  from pos have "nat max_retries - 1 < nat max_retries" by simp
  with assms(3) have "failed_attempt e (length (calls st) + (nat max_retries - 1)) command"
    by blast
  moreover have "length (calls st) + (nat max_retries - 1) = length (calls st) + nat max_retries - 1"
    using pos by simp
  ultimately have "returncode p \<noteq> 0" using p by (simp add: failed_attempt_def)
  then show ?thesis using res p err r run by simp
qed

theorem run_az_command_exhausted_witness:
  "1 \<le> (3::int)
   \<and> CHR 0x00 \<notin> set ''az''
   \<and> fst (run_az_command failing_env ''az'' 3 5 st0) = Inr ([], ''e 2'', 2)
   \<and> calls (snd (run_az_command failing_env ''az'' 3 5 st0)) = [''az'', ''az'', ''az'']
   \<and> sleeps (snd (run_az_command failing_env ''az'' 3 5 st0)) = [5, 5]"
proof -
  have h1: "1 \<le> (3::int)" by simp
  have h2: "CHR 0x00 \<notin> set ''az''" by simp
  have h3: "\<forall>i<nat 3. failed_attempt failing_env (length (calls st0) + i) ''az''"
    by (simp add: failing_env_def failed_attempt_def)
  from run_az_command_exhausted [OF h1 h2 h3, of 5] obtain p err where
    p: "proc failing_env (length (calls st0) + nat 3 - 1) ''az'' = Inr p"
    and err: "stderr p = Some err"
    and r: "fst (run_az_command failing_env ''az'' 3 5 st0) = Inr ([], strip err, returncode p)"
    and c: "calls (snd (run_az_command failing_env ''az'' 3 5 st0)) = calls st0 @ replicate (nat 3) ''az''"
    and s: "sleeps (snd (run_az_command failing_env ''az'' 3 5 st0)) = sleeps st0 @ replicate (nat 3 - 1) 5"
    by blast
  have v0: "proc failing_env (length (calls st0) + nat 3 - 1) ''az''
              = Inr \<lparr>stdout = Some ''o'', stderr = Some (''e '' @ str_nat 2 @ nl), returncode = 2\<rparr>"
    by (simp add: failing_env_def st0_def)
  have v1: "strip (''e '' @ str_nat 2 @ nl) = ''e 2''" by code_simp
  have v2: "calls st0 @ replicate (nat 3) ''az'' = [''az'', ''az'', ''az'']"
    by code_simp
  have v3: "sleeps st0 @ replicate (nat 3 - 1) 5 = [5, 5]"
    by code_simp
  from p v0 have "p = \<lparr>stdout = Some ''o'', stderr = Some (''e '' @ str_nat 2 @ nl), returncode = 2\<rparr>"
    by simp
  with err have "err = ''e '' @ str_nat 2 @ nl" and "returncode p = 2" by simp_all
  with r v1 have "fst (run_az_command failing_env ''az'' 3 5 st0) = Inr ([], ''e 2'', 2)"
    by simp
  moreover from c v2 have "calls (snd (run_az_command failing_env ''az'' 3 5 st0)) = [''az'', ''az'', ''az'']"
    by simp
  moreover from s v3 have "sleeps (snd (run_az_command failing_env ''az'' 3 5 st0)) = [5, 5]"
    by simp
  ultimately show ?thesis using h1 h2 by blast
qed

text \<open>
  C2 does not hold for every command and every value. With \<open>max_retries = 0\<close> the loop
  body never runs and the final \<open>return\<close> reads the unbound \<open>stderr\<close>: the call raises.
  When an attempt exits with a non-zero status and a standard error that is not valid
  UTF-8, decoding it for the second printed line raises after that one attempt. A
  command with a NUL character raises before any process is spawned. And after three
  failed attempts the standard output that the last attempt captured is not part of
  what is returned.
\<close>

theorem run_az_command_no_attempt_counterexample:
  "run_az_command failing_env ''az'' 0 5 st0 = (Inl UnboundLocalError, st0)
   \<and> fst (run_az_command undecodable_env ''az'' 3 5 st0) = Inl UnicodeDecodeError
   \<and> calls (snd (run_az_command undecodable_env ''az'' 3 5 st0)) = [''az'']
   \<and> run_az_command failing_env [CHR ''a'', CHR 0x00] 3 5 st0 = (Inl ValueError, st0)
   \<and> map_sum id stdout (proc failing_env 2 ''az'') = Inr (Some ''o'')
   \<and> fst (run_az_command failing_env ''az'' 3 5 st0) = Inr ([], ''e 2'', 2)"
proof -
  have "run_az_command failing_env ''az'' 0 5 st0 = (Inl UnboundLocalError, st0)"
    by (simp add: run_az_command_def)
  moreover have "fst (run_az_command undecodable_env ''az'' 3 5 st0) = Inl UnicodeDecodeError"
    by code_simp
  moreover have "calls (snd (run_az_command undecodable_env ''az'' 3 5 st0)) = [''az'']"
    by code_simp
  moreover have "run_az_command failing_env [CHR ''a'', CHR 0x00] 3 5 st0 = (Inl ValueError, st0)"
    by (simp add: run_az_command_def numeral_3_eq_3 upt_conv_Cons)
  moreover have "map_sum id stdout (proc failing_env 2 ''az'') = Inr (Some ''o'')"
    by (simp add: failing_env_def)
  moreover have "fst (run_az_command failing_env ''az'' 3 5 st0) = Inr ([], ''e 2'', 2)"
    by code_simp
  ultimately show ?thesis by blast
qed

section \<open>Snapshot names are injective in the VM name\<close>

text \<open>
  Claim C9: for a fixed change number and run time stamp, distinct VM names give
  distinct snapshot names.
\<close>

theorem snapshot_names_distinct:
  "vmA \<noteq> vmB \<Longrightarrow> snapshot_name_of chg vmA ts \<noteq> snapshot_name_of chg vmB ts"
  by (simp add: snapshot_name_of_def)

theorem snapshot_names_distinct_witness:
  "''vm1'' \<noteq> ''vm2'' \<and> snapshot_name_of ''123'' ''vm1'' ''20240101120000'' \<noteq> snapshot_name_of ''123'' ''vm2'' ''20240101120000''"
  using snapshot_names_distinct [of "''vm1''" "''vm2''" "''123''" "''20240101120000''"] by simp

section \<open>The grouper raises on a malformed record\<close>

lemma parse_line_malformed:
  "malformed line \<Longrightarrow>
   parse_line line = Inl (if length (split_ws line) \<noteq> 2 then ValueError else IndexError)"
  unfolding malformed_def parse_line_def
  by (auto simp: Let_def split: list.splits)

lemma parse_line_wellformed:
  "\<not> malformed line \<Longrightarrow> \<exists>r. parse_line line = Inr r"
  unfolding malformed_def parse_line_def
  by (auto simp: Let_def split: list.splits)

lemma group_loop_malformed:
  "find malformed vm_list = Some bad \<Longrightarrow>
   group_loop vm_list g = Inl (if length (split_ws bad) \<noteq> 2 then ValueError else IndexError)"
proof (induction vm_list arbitrary: g)
  case Nil
  then show ?case by simp
next
  case (Cons line rest)
  show ?case
  proof (cases "malformed line")
    case True
    then show ?thesis using Cons.prems parse_line_malformed [OF True] by simp
  next
    case False
    then obtain r where r: "parse_line line = Inr r" using parse_line_wellformed by blast
    from False Cons.prems have "find malformed rest = Some bad" by simp
    then show ?thesis using Cons.IH r by (simp split: prod.splits)
  qed
qed

text \<open>
  Claim C3, as the code has it: when the list holds a malformed record, the grouper
  returns no grouping and no per-record error. It raises at the first malformed record:
  \<open>ValueError\<close> when the line does not split into exactly two tokens, \<open>IndexError\<close>
  when the resource identifier has fewer than three segments.
\<close>

theorem group_raises_on_malformed:
  assumes "line \<in> set vm_list" and "malformed line"
  shows "\<exists>bad. find malformed vm_list = Some bad
           \<and> group_vms_by_subscription vm_list
               = Inl (if length (split_ws bad) \<noteq> 2 then ValueError else IndexError)"
proof -
  from assms obtain bad where "find malformed vm_list = Some bad"
    by (cases "find malformed vm_list") (auto simp: find_None_iff)
  then show ?thesis
    unfolding group_vms_by_subscription_def using group_loop_malformed by blast
qed

theorem group_raises_on_malformed_witness:
  "group_vms_by_subscription [''/s/A/x a'', ''/s b''] = Inl IndexError"
proof -
  have h1: "''/s b'' \<in> set [''/s/A/x a'', ''/s b'']" by simp
  have h2: "malformed ''/s b''" by code_simp
  have f: "find malformed [''/s/A/x a'', ''/s b''] = Some ''/s b''" by code_simp
  have l: "length (split_ws ''/s b'') = 2" by code_simp
  from group_raises_on_malformed [OF h1 h2] f l show ?thesis by simp
qed

text \<open>A line of one token: the unpacking raises, and the result carries no grouping and no
  error for the record.\<close>

theorem group_raises_counterexample:
  "group_vms_by_subscription [''/s/A/x a'', ''b''] = Inl ValueError"
  by code_simp

section \<open>What the worker reports\<close>

lemma retry_loop_result_calls:
  "calls st = calls st2 \<Longrightarrow>
   fst (retry_loop e c m d as prev st) = fst (retry_loop e c m d as prev st2)"
proof (induction as arbitrary: prev st st2)
  case Nil
  then show ?case by (simp split: option.splits)
next
  case (Cons a as)
  show ?case
  proof (cases "\<exists>p err. CHR 0x00 \<notin> set c \<and> proc e (length (calls st)) c = Inr p
                   \<and> returncode p \<noteq> 0 \<and> stderr p = Some err")
    case True
    then obtain p err where nul: "CHR 0x00 \<notin> set c" and p: "proc e (length (calls st)) c = Inr p"
      and nz: "returncode p \<noteq> 0" and err: "stderr p = Some err" by blast
    from p Cons.prems have p2: "proc e (length (calls st2)) c = Inr p" by simp
    have "fst (retry_loop e c m d as (Some p)
                 (report_failure m d a err (print (failure_notice c a) (st\<lparr>calls := calls st @ [c]\<rparr>))))
        = fst (retry_loop e c m d as (Some p)
                 (report_failure m d a err (print (failure_notice c a) (st2\<lparr>calls := calls st2 @ [c]\<rparr>))))"
      by (rule Cons.IH) (simp add: Cons.prems)
    then show ?thesis
      by (simp only: retry_loop_failed_step [OF nul p nz err] retry_loop_failed_step [OF nul p2 nz err])
  next
    case False
    then show ?thesis using Cons.prems
      by (auto simp: Let_def split: sum.splits option.splits)
  qed
qed

lemma retry_loop_registry:
  "registry (snd (retry_loop e c m d as prev st)) = registry st"
  by (induction as arbitrary: prev st)
    (auto simp: Let_def split: sum.splits option.splits)

lemma run_az_command_result_calls:
  "calls st = calls st2 \<Longrightarrow> fst (run_az_command e c m d st) = fst (run_az_command e c m d st2)"
  unfolding run_az_command_def by (rule retry_loop_result_calls)

lemma run_az_command_registry:
  "registry (snd (run_az_command e c m d st)) = registry st"
  unfolding run_az_command_def by (rule retry_loop_registry)

lemma contains_Failed_reason: "contains ''Failed'' ''Failed to extract snapshot ID''"
  by code_simp

text \<open>
  Claim C5: when the snapshot-create command succeeds and its response is an object
  without an \<open>id\<close> field, the worker returns the reason
  \<open>Failed to extract snapshot ID\<close>, the registry is left as it was, and the
  orchestrator's loop over the results puts the VM on the failed list.
\<close>

theorem missing_id_reported_failed:
  assumes "date_after e (TTL_DURATION st) = Some expiration_date"
    and "fst (run_az_command e
           (create_command e (snapshot_name_of chg_number vm_name timestamp) resource_group disk_id user_id)
           3 5 st) = Inr (out, err, 0)"
    and "json_loads e out = Some (JObject kvs)"
    and "map_of kvs ''id'' = None"
  shows "fst (process_vm e resource_id vm_name resource_group disk_id chg_number timestamp lf user_id st)
           = Inr (vm_name, ''Failed to extract snapshot ID'')
         \<and> registry (snd (process_vm e resource_id vm_name resource_group disk_id chg_number timestamp lf user_id st))
           = registry st
         \<and> collect [(vm_name, ''Failed to extract snapshot ID'')] succeeded failed
           = (succeeded, failed @ [(vm_name, ''Failed to extract snapshot ID'')])"
proof -
  let ?cmd = "create_command e (snapshot_name_of chg_number vm_name timestamp) resource_group disk_id user_id"
  let ?st4 = "write_log lf (''User ID: '' @ user_id)
               (write_log lf (''Resource group: '' @ fmt e resource_group)
                 (write_log lf (''Resource ID: '' @ resource_id)
                   (write_log lf (''Processing VM: '' @ vm_name) st)))"
  obtain r st5 where run: "run_az_command e ?cmd 3 5 ?st4 = (r, st5)"
    by (cases "run_az_command e ?cmd 3 5 ?st4")
  have "fst (run_az_command e ?cmd 3 5 ?st4) = fst (run_az_command e ?cmd 3 5 st)"
    by (rule run_az_command_result_calls) simp
  with assms(2) run have r: "r = Inr (out, err, 0)" by simp
  have reg: "registry st5 = registry st"
    using run_az_command_registry [of e ?cmd 3 5 ?st4] run by simp
  have "process_vm e resource_id vm_name resource_group disk_id chg_number timestamp lf user_id st
          = (Inr (vm_name, ''Failed to extract snapshot ID''),
             write_log lf (''Warning: Could not extract snapshot resource ID for '' @ snapshot_name_of chg_number vm_name timestamp)
               (write_log lf (json_dumps e (JObject kvs))
                 (write_log lf (''Snapshot created: '' @ snapshot_name_of chg_number vm_name timestamp) st5)))"
    using assms(1,3,4) run r by (simp add: process_vm_def Let_def dict_get_def)
  then show ?thesis using reg contains_Failed_reason by simp
qed

theorem missing_id_reported_failed_witness:
  "fst (process_vm no_id_env ''/s/A/x'' ''a'' (JString ''g'') (JString ''d'') ''1'' ''0'' ''l'' ''u'' st0)
     = Inr (''a'', ''Failed to extract snapshot ID'')
   \<and> registry (snd (process_vm no_id_env ''/s/A/x'' ''a'' (JString ''g'') (JString ''d'') ''1'' ''0'' ''l'' ''u'' st0))
     = []
   \<and> collect [(''a'', ''Failed to extract snapshot ID'')] [] []
     = ([], [(''a'', ''Failed to extract snapshot ID'')])"
proof -
  have h1: "date_after no_id_env (TTL_DURATION st0) = Some ''1''" by code_simp
  have h2: "fst (run_az_command no_id_env
              (create_command no_id_env (snapshot_name_of ''1'' ''a'' ''0'') (JString ''g'') (JString ''d'') ''u'')
              3 5 st0) = Inr (''E'', [], 0)"
    by code_simp
  have h3: "json_loads no_id_env ''E'' = Some (JObject [])" by code_simp
  have h4: "map_of ([] :: (string \<times> json) list) ''id'' = None" by simp
  have r: "registry st0 = []" by code_simp
  from missing_id_reported_failed [OF h1 h2 h3 h4, of "''/s/A/x''" "''l''" "[]" "[]"] r
  show ?thesis by simp
qed

text \<open>
  Claim C4 at a VM named \<open>Failed1\<close>: the create command succeeds and its response
  carries the identifier \<open>i\<close>. The worker appends the record to the registry and
  returns the snapshot's name, and the loop over the results, finding the word
  \<open>Failed\<close> in that name, counts the VM as failed: the summary has no success.
\<close>

theorem success_with_Failed_in_name_counted_failed:
  "(case main failed_name_env ''h'' ''1'' 7 None st0 of
      (r, st) \<Rightarrow> (r, registry st, map_option snd (summary st))) =
     (Inr (Summary \<lparr>total_vms = 1, successful_snapshots = 0, failed_snapshots = 1,
        log_file = ''logs/snapshot_creation_log_0.txt'',
        summary_file = ''logs/snapshot_summary_0.txt'',
        snap_rid_list = ''snap_rid_list.txt''\<rparr>),
      [''i,RH_1_Failed1_0,1,u''],
      Some (''Self-Destruct Snapshot Creation Summary'' @ nl
        @ ''======================================='' @ nl @ nl
        @ ''Total VMs processed: 1'' @ nl
        @ ''Successful snapshots: 0'' @ nl
        @ ''Failed snapshots: 1'' @ nl
        @ ''Time-to-Live: 7 days'' @ nl @ nl
        @ ''Successful snapshots:'' @ nl @ nl
        @ ''Failed snapshots:'' @ nl
        @ ''- Failed1: RH_1_Failed1_0'' @ nl))"
  by code_simp

section \<open>The orchestrator accounts for every VM\<close>

lemma retry_loop_failed_calls:
  "retry_loop e c m d as prev st = (Inr (out, err, rc), st1) \<Longrightarrow> rc \<noteq> 0 \<Longrightarrow>
   calls st1 = calls st @ replicate (length as) c"
proof (induction as arbitrary: prev st)
  case Nil
  then show ?case by (simp split: option.splits)
next
  case (Cons a as)
  show ?case
  proof (cases "\<exists>p err'. CHR 0x00 \<notin> set c \<and> proc e (length (calls st)) c = Inr p
                   \<and> returncode p \<noteq> 0 \<and> stderr p = Some err'")
    case True
    then obtain p err' where nul: "CHR 0x00 \<notin> set c" and p: "proc e (length (calls st)) c = Inr p"
      and nz: "returncode p \<noteq> 0" and err': "stderr p = Some err'" by blast
    from Cons.prems(1)
    have "retry_loop e c m d as (Some p)
            (report_failure m d a err' (print (failure_notice c a) (st\<lparr>calls := calls st @ [c]\<rparr>)))
            = (Inr (out, err, rc), st1)"
      by (simp only: retry_loop_failed_step [OF nul p nz err'])
    from Cons.IH [OF this Cons.prems(2)] show ?thesis
      by (simp add: replicate_append_same)
  next
    case False
    then show ?thesis using Cons.prems
      by (auto simp: Let_def split: sum.splits option.splits if_splits)
  qed
qed

lemma run_az_command_failed_calls:
  "run_az_command e c 3 d st = (Inr (out, err, rc), st1) \<Longrightarrow> rc \<noteq> 0 \<Longrightarrow>
   calls st1 = calls st @ [c, c, c]"
  unfolding run_az_command_def
  by (drule retry_loop_failed_calls) (simp_all add: numeral_3_eq_3)

lemma collect_prefix:
  "collect rs s f = (s', f') \<Longrightarrow> prefix s s' \<and> prefix f f'"
proof (induction rs arbitrary: s f)
  case Nil
  then show ?case by simp
next
  case (Cons r rs)
  obtain n x where r: "r = (n, x)" by (cases r)
  show ?case
  proof (cases "contains ''Failed'' x")
    case True
    with Cons.prems r have "collect rs s (f @ [(n, x)]) = (s', f')" by simp
    from Cons.IH [OF this] show ?thesis by (auto dest: append_prefixD)
  next
    case False
    with Cons.prems r have "collect rs (s @ [(n, x)]) f = (s', f')" by simp
    from Cons.IH [OF this] show ?thesis by (auto dest: append_prefixD)
  qed
qed

lemma collect_count:
  "collect rs s f = (s', f') \<Longrightarrow> length s' + length f' = length s + length f + length rs"
proof (induction rs arbitrary: s f)
  case Nil
  then show ?case by simp
next
  case (Cons r rs)
  obtain n x where r: "r = (n, x)" by (cases r)
  show ?case
  proof (cases "contains ''Failed'' x")
    case True
    with Cons.prems r have "collect rs s (f @ [(n, x)]) = (s', f')" by simp
    from Cons.IH [OF this] show ?thesis by simp
  next
    case False
    with Cons.prems r have "collect rs (s @ [(n, x)]) f = (s', f')" by simp
    from Cons.IH [OF this] show ?thesis by simp
  qed
qed

lemma fetch_details_inv:
  "fetch_details e lf vms tasks failed st = (Inr (tasks', failed'), st') \<Longrightarrow>
   prefix failed failed'
   \<and> length tasks' + length failed' = length tasks + length failed + length vms"
proof (induction vms arbitrary: tasks failed st)
  case Nil
  then show ?case by simp
next
  case (Cons vm vms)
  obtain resource_id vm_name where vm: "vm = (resource_id, vm_name)" by (cases vm)
  obtain r st1 where run: "run_az_command e (show_command resource_id) 3 5 st = (r, st1)"
    by (cases "run_az_command e (show_command resource_id) 3 5 st")
  from Cons.prems vm run obtain out err rc where r: "r = Inr (out, err, rc)"
    by (cases r) auto
  show ?case
  proof (cases "rc = 0")
    case False
    with Cons.prems vm run r obtain st2 where
      "fetch_details e lf vms tasks (failed @ [(vm_name, ''Failed to get VM details'')]) st2
         = (Inr (tasks', failed'), st')"
      by simp
    from Cons.IH [OF this] show ?thesis by (auto dest: append_prefixD)
  next
    case True
    with Cons.prems vm run r obtain resource_group disk_id where
      "fetch_details e lf vms (tasks @ [(resource_id, vm_name, resource_group, disk_id)]) failed st1
         = (Inr (tasks', failed'), st')"
      by (auto split: option.splits sum.splits)
    from Cons.IH [OF this] show ?thesis by simp
  qed
qed

lemma gather_length:
  "gather e chg ts lf uid tasks st = (Inr results, st') \<Longrightarrow> length results = length tasks"
proof (induction tasks arbitrary: st results)
  case Nil
  then show ?case by simp
next
  case (Cons t tasks)
  obtain resource_id vm_name resource_group disk_id
    where t: "t = (resource_id, vm_name, resource_group, disk_id)" by (cases t)
  from Cons.prems t obtain r st1 results1 where
    "gather e chg ts lf uid tasks st1 = (Inr results1, st')" and "results = r # results1"
    by (auto split: prod.splits sum.splits)
  with Cons.IH show ?case by simp
qed

lemma run_groups_inv:
  "run_groups e chg ts lf uid grouped s f st = (Inr (s', f'), st') \<Longrightarrow>
   prefix s s' \<and> prefix f f'
   \<and> length s' + length f' = length s + length f + group_total grouped"
proof (induction grouped arbitrary: s f st)
  case Nil
  then show ?case by (simp add: group_total_def)
next
  case (Cons grp grouped)
  obtain subscription_id vms where grp: "grp = (subscription_id, vms)" by (cases grp)
  let ?cmd = "''az account set --subscription '' @ subscription_id"
  obtain r st1 where run: "run_az_command e ?cmd 3 5 st = (r, st1)"
    by (cases "run_az_command e ?cmd 3 5 st")
  from Cons.prems grp run obtain out err rc where r: "r = Inr (out, err, rc)"
    by (cases r) auto
  have total: "group_total (grp # grouped) = length vms + group_total grouped"
    by (simp add: group_total_def grp)
  show ?case
  proof (cases "rc = 0")
    case False
    with Cons.prems grp run r obtain st2 where
      "run_groups e chg ts lf uid grouped s
         (f @ map (\<lambda>(_, vm_name). (vm_name, ''Failed to set subscription'')) vms) st2
         = (Inr (s', f'), st')"
      by simp
    from Cons.IH [OF this] show ?thesis using total by (auto dest: append_prefixD)
  next
    case True
    with Cons.prems grp run r obtain tasks failed1 st2 results st3 s2 f2 where
      fd: "fetch_details e lf vms [] f (write_log lf (''Switched to subscription: '' @ subscription_id) st1)
             = (Inr (tasks, failed1), st2)"
      and ga: "gather e chg ts lf uid tasks st2 = (Inr results, st3)"
      and co: "collect results s failed1 = (s2, f2)"
      and rest: "run_groups e chg ts lf uid grouped s2 f2 st3 = (Inr (s', f'), st')"
      by (auto split: prod.splits sum.splits)
    from fetch_details_inv [OF fd] gather_length [OF ga] collect_count [OF co] collect_prefix [OF co]
      Cons.IH [OF rest]
    show ?thesis using total by (auto intro: prefix_order.trans)
  qed
qed

text \<open>
  Claim C6: when the command that switches to a subscription fails after the
  executor's retries, the loop goes on with the next subscription, every VM of the
  group being on the failed list with the reason \<open>Failed to set subscription\<close>; the
  only processes spawned for the group are the three attempts to switch; and the VMs
  of the group are on the failed list of every outcome the run reaches.
\<close>

theorem switch_failure_fails_group:
  assumes "run_az_command e (''az account set --subscription '' @ subscription_id) 3 5 st
             = (Inr (out, err, rc), st1)"
    and "rc \<noteq> 0"
  shows "run_groups e chg_number timestamp lf user_id ((subscription_id, vms) # rest) succeeded failed st
           = run_groups e chg_number timestamp lf user_id rest succeeded
               (failed @ map (\<lambda>(_, vm_name). (vm_name, ''Failed to set subscription'')) vms)
               (write_log lf (''Error: '' @ err)
                  (write_log lf (''Failed to set subscription ID: '' @ subscription_id) st1))
         \<and> calls (write_log lf (''Error: '' @ err)
                  (write_log lf (''Failed to set subscription ID: '' @ subscription_id) st1))
             = calls st @ replicate 3 (''az account set --subscription '' @ subscription_id)
         \<and> (\<forall>succeeded' failed' st'.
               run_groups e chg_number timestamp lf user_id ((subscription_id, vms) # rest) succeeded failed st
                 = (Inr (succeeded', failed'), st')
               \<longrightarrow> (\<forall>vm \<in> set vms. (snd vm, ''Failed to set subscription'') \<in> set failed'))"
proof (intro conjI allI impI ballI)
  show step: "run_groups e chg_number timestamp lf user_id ((subscription_id, vms) # rest) succeeded failed st
           = run_groups e chg_number timestamp lf user_id rest succeeded
               (failed @ map (\<lambda>(_, vm_name). (vm_name, ''Failed to set subscription'')) vms)
               (write_log lf (''Error: '' @ err)
                  (write_log lf (''Failed to set subscription ID: '' @ subscription_id) st1))"
    using assms by simp
  show "calls (write_log lf (''Error: '' @ err)
                  (write_log lf (''Failed to set subscription ID: '' @ subscription_id) st1))
             = calls st @ replicate 3 (''az account set --subscription '' @ subscription_id)"
    using run_az_command_failed_calls [OF assms] by (simp add: numeral_3_eq_3)
  fix succeeded' failed' st' vm
  assume "run_groups e chg_number timestamp lf user_id ((subscription_id, vms) # rest) succeeded failed st
            = (Inr (succeeded', failed'), st')"
    and vm: "vm \<in> set vms"
  with step have "prefix (failed @ map (\<lambda>(_, vm_name). (vm_name, ''Failed to set subscription'')) vms) failed'"
    using run_groups_inv by metis
  then have "set (map (\<lambda>(_, vm_name). (vm_name, ''Failed to set subscription'')) vms) \<subseteq> set failed'"
    by (auto simp: prefix_def)
  moreover have "(snd vm, ''Failed to set subscription'')
                   \<in> set (map (\<lambda>(_, vm_name). (vm_name, ''Failed to set subscription'')) vms)"
    using vm by (force simp: case_prod_unfold)
  ultimately show "(snd vm, ''Failed to set subscription'') \<in> set failed'" by blast
qed

theorem switch_failure_fails_group_witness:
  "fst (run_az_command failing_env (''az account set --subscription '' @ ''B'') 3 5 st0) = Inr ([], ''e 2'', 2)
   \<and> fst (run_groups failing_env ''1'' ''0'' ''l'' ''u'' [(''B'', [(''/s/B/y'', ''b'')])] [] [] st0)
       = Inr ([], [(''b'', ''Failed to set subscription'')])
   \<and> (''b'', ''Failed to set subscription'')
       \<in> set (snd (projr (fst (run_groups failing_env ''1'' ''0'' ''l'' ''u'' [(''B'', [(''/s/B/y'', ''b'')])] [] [] st0))))"
proof -
  let ?cmd = "''az account set --subscription '' @ ''B''"
  let ?run = "run_groups failing_env ''1'' ''0'' ''l'' ''u'' [(''B'', [(''/s/B/y'', ''b'')])] [] [] st0"
  have f: "fst (run_az_command failing_env ?cmd 3 5 st0) = Inr ([], ''e 2'', 2)"
    by code_simp
  then have h1: "run_az_command failing_env ?cmd 3 5 st0
                   = (Inr ([], ''e 2'', 2), snd (run_az_command failing_env ?cmd 3 5 st0))"
    by (simp add: prod_eq_iff)
  have h2: "(2::int) \<noteq> 0" by simp
  have g: "fst ?run = Inr ([], [(''b'', ''Failed to set subscription'')])"
    by code_simp
  then have g2: "?run = (Inr ([], [(''b'', ''Failed to set subscription'')]), snd ?run)"
    by (simp add: prod_eq_iff)
  note t = switch_failure_fails_group [OF h1 h2, of "''1''" "''0''" "''l''" "''u''" "[(''/s/B/y'', ''b'')]" "[]" "[]" "[]"]
  from t have "\<forall>vm\<in>set [(''/s/B/y'', ''b'')].
                 (snd vm, ''Failed to set subscription'') \<in> set [(''b'', ''Failed to set subscription'')]"
    using g2 by blast
  then show ?thesis using f g by simp
qed

lemma add_to_group_total:
  "group_total (add_to_group g k v) = Suc (group_total g)"
  by (induction g k v rule: add_to_group.induct) (simp_all add: group_total_def)

lemma group_loop_total:
  "group_loop vm_list g = Inr g' \<Longrightarrow> group_total g' = group_total g + length vm_list"
proof (induction vm_list arbitrary: g)
  case Nil
  then show ?case by simp
next
  case (Cons line rest)
  from Cons.prems obtain subscription_id resource_id vm_name where
    "group_loop rest (add_to_group g subscription_id (resource_id, vm_name)) = Inr g'"
    by (auto split: sum.splits)
  from Cons.IH [OF this] show ?case by (simp add: add_to_group_total)
qed

text \<open>
  Claim C1: whenever \<open>main\<close> returns its summary, that is for every run that has an
  identity, a non-empty resolved list and reaches its end, the count of successes plus
  the count of failures is the count of resolved VMs.
\<close>

theorem outcome_accounts_for_every_vm:
  assumes "fst (main e host_file chg_number ttl_duration exclude_keywords st) = Inr (Summary s)"
  shows "successful_snapshots s + failed_snapshots s = total_vms s"
proof -
  from assms obtain vm_list grouped_vms user_id lf st5 succeeded failed st6 where
    g: "group_vms_by_subscription vm_list = Inr grouped_vms"
    and r: "run_groups e chg_number (clock e) lf user_id grouped_vms [] [] st5 = (Inr (succeeded, failed), st6)"
    and s: "s = \<lparr>total_vms = length vm_list, successful_snapshots = length succeeded,
                 failed_snapshots = length failed,
                 log_file = lf,
                 summary_file = log_dir @ ''/'' @ ''snapshot_summary_'' @ clock e @ ''.txt'',
                 snap_rid_list = snap_rid_list_file\<rparr>"
    unfolding main_def Let_def
    by (auto split: prod.splits sum.splits option.splits if_splits)
  from g have "group_total grouped_vms = length vm_list"
    using group_loop_total [of vm_list "[]" grouped_vms]
    by (simp add: group_vms_by_subscription_def group_total_def)
  with run_groups_inv [OF r] s show ?thesis by simp
qed

theorem outcome_accounts_for_every_vm_witness:
  "fst (main mixed_env ''h'' ''1'' 7 None st0) =
     Inr (Summary \<lparr>total_vms = 4, successful_snapshots = 1, failed_snapshots = 3,
        log_file = ''logs/snapshot_creation_log_0.txt'',
        summary_file = ''logs/snapshot_summary_0.txt'',
        snap_rid_list = ''snap_rid_list.txt''\<rparr>)
   \<and> (1::nat) + 3 = 4"
proof -
  have run: "fst (main mixed_env ''h'' ''1'' 7 None st0) =
     Inr (Summary \<lparr>total_vms = 4, successful_snapshots = 1, failed_snapshots = 3,
        log_file = ''logs/snapshot_creation_log_0.txt'',
        summary_file = ''logs/snapshot_summary_0.txt'',
        snap_rid_list = ''snap_rid_list.txt''\<rparr>)"
    by code_simp
  from outcome_accounts_for_every_vm [OF run] run show ?thesis by simp
qed

section \<open>What the resolver keeps, excludes and skips\<close>

lemma resolve_loop_File:
  assumes "fs e inventory_file = File inv_text"
  shows "resolve_loop e kws hs vl ex st =
     (Inr (vl @ map (info_of (file_lines inv_text)) (filter (kept (file_lines inv_text) kws) hs),
           ex @ filter (dropped (file_lines inv_text) kws) hs),
      st\<lparr>printed := printed st @ map warning (filter (\<lambda>h. \<not> found (file_lines inv_text) h) hs)\<rparr>)"
proof (induction hs arbitrary: vl ex st)
  case Nil
  show ?case by simp
next
  case (Cons h hs)
  have g: "get_vm_info e h inventory_file = Inr (first_match h (file_lines inv_text))"
    using assms by (simp add: get_vm_info_def)
  show ?case
  proof (cases "first_match h (file_lines inv_text)")
    case None
    then show ?thesis using g Cons.IH
      by (simp add: found_def kept_def dropped_def print_def)
  next
    case (Some vm_info)
    then show ?thesis using g Cons.IH
      by (simp add: found_def kept_def dropped_def info_of_def print_def)
  qed
qed

lemma extract_vm_info_File:
  assumes "fs e inventory_file = File inv_text" and "fs e host_file = File hosts"
  shows "extract_vm_info e host_file kws st =
     (Inr (Some (map (info_of (file_lines inv_text)) (filter (kept (file_lines inv_text) kws) (splitlines hosts))), None),
      (let st1 = st\<lparr>printed := printed st @ map warning (filter (\<lambda>h. \<not> found (file_lines inv_text) h) (splitlines hosts))\<rparr>;
           excluded_vms = filter (dropped (file_lines inv_text) kws) (splitlines hosts)
       in if excluded_vms \<noteq> []
          then print (''Excluded VMs based on keywords: '' @ join '', '' excluded_vms) st1
          else st1))"
  using assms by (simp add: extract_vm_info_def exists_def resolve_loop_File Let_def)

lemma main_total_vms:
  assumes "fst (main e host_file chg_number ttl_duration exclude_keywords st) = Inr (Summary s)"
  shows "\<exists>vm_list st4 st5. extract_vm_info e host_file exclude_keywords st4 = (Inr (Some vm_list, None), st5)
           \<and> total_vms s = length vm_list"
proof -
  from assms obtain vm_list st4 st5 where
    "extract_vm_info e host_file exclude_keywords st4 = (Inr (Some vm_list, None), st5)"
    and "total_vms s = length vm_list"
    unfolding main_def Let_def
    by (auto split: prod.splits sum.splits option.splits if_splits)
  then show ?thesis by blast
qed

text \<open>
  Claim C7: when the line that \<open>get_vm_info\<close> returns for a host name contains an
  exclusion keyword, compared in lower case, that line is not in the resolved list, the
  host name is in the list of excluded names that is printed at the end, the resolved
  list is the one obtained without the host name, and \<open>total_vms\<close> of any summary is
  the length of that list.
\<close>

theorem excluded_vm_not_resolved:
  assumes "fs e inventory_file = File inv_text"
    and "fs e host_file = File hosts"
    and "hostname \<in> set (splitlines hosts)"
    and "first_match hostname (file_lines inv_text) = Some vm_info"
    and "vm_info \<noteq> []"
    and "keyword \<in> set kws"
    and "contains (lower keyword) (lower vm_info)"
  shows "\<exists>vm_list excluded_vms st'.
           extract_vm_info e host_file (Some kws) st = (Inr (Some vm_list, None), st')
           \<and> vm_info \<notin> set vm_list
           \<and> hostname \<in> set excluded_vms
           \<and> last (printed st') = ''Excluded VMs based on keywords: '' @ join '', '' excluded_vms
           \<and> fst (resolve_loop e (Some kws) (filter (\<lambda>h. h \<noteq> hostname) (splitlines hosts)) [] [] st)
               = Inr (vm_list, filter (\<lambda>h. h \<noteq> hostname) excluded_vms)
           \<and> (\<forall>chg_number ttl_duration st0 s.
                 fst (main e host_file chg_number ttl_duration (Some kws) st0) = Inr (Summary s)
                 \<longrightarrow> total_vms s = length vm_list)"
proof -
  let ?L = "file_lines inv_text"
  let ?hs = "splitlines hosts"
  let ?vm_list = "map (info_of ?L) (filter (kept ?L (Some kws)) ?hs)"
  let ?excluded = "filter (dropped ?L (Some kws)) ?hs"
  have ex: "excluded_by (Some kws) vm_info"
    using assms(6,7) by (auto simp: excluded_by_def list_ex_iff)
  have dropped: "dropped ?L (Some kws) hostname"
    using assms(4,5) ex by (simp add: dropped_def found_def info_of_def)
  then have notkept: "\<not> kept ?L (Some kws) hostname"
    by (simp add: dropped_def kept_def)
  have hex: "hostname \<in> set ?excluded" using assms(3) dropped by simp
  then have ne: "?excluded \<noteq> []" by (metis empty_iff empty_set)
  note ext = extract_vm_info_File [OF assms(1,2), of "Some kws"]
  have 1: "extract_vm_info e host_file (Some kws) st =
             (Inr (Some ?vm_list, None),
              print (''Excluded VMs based on keywords: '' @ join '', '' ?excluded)
                (st\<lparr>printed := printed st @ map warning (filter (\<lambda>h. \<not> found ?L h) ?hs)\<rparr>))"
    using ext [of st] ne by (simp add: Let_def)
  have 2: "vm_info \<notin> set ?vm_list"
  proof
    assume "vm_info \<in> set ?vm_list"
    then obtain h where "kept ?L (Some kws) h" and "info_of ?L h = vm_info" by auto
    then show False using ex by (simp add: kept_def)
  qed
  have 3: "last (printed (print (''Excluded VMs based on keywords: '' @ join '', '' ?excluded)
                (st\<lparr>printed := printed st @ map warning (filter (\<lambda>h. \<not> found ?L h) ?hs)\<rparr>)))
             = ''Excluded VMs based on keywords: '' @ join '', '' ?excluded"
    by (simp add: print_def)
  have f1: "filter (kept ?L (Some kws)) (filter (\<lambda>h. h \<noteq> hostname) ?hs) = filter (kept ?L (Some kws)) ?hs"
    using notkept by (auto intro: filter_cong)
  have f2: "filter (dropped ?L (Some kws)) (filter (\<lambda>h. h \<noteq> hostname) ?hs) = filter (\<lambda>h. h \<noteq> hostname) ?excluded"
    by (simp add: conj_commute)
  have 4: "fst (resolve_loop e (Some kws) (filter (\<lambda>h. h \<noteq> hostname) ?hs) [] [] st)
             = Inr (?vm_list, filter (\<lambda>h. h \<noteq> hostname) ?excluded)"
    by (simp only: resolve_loop_File [OF assms(1)] fst_conv append_Nil f1 f2)
  have 5: "\<forall>chg_number ttl_duration st0 s.
             fst (main e host_file chg_number ttl_duration (Some kws) st0) = Inr (Summary s)
             \<longrightarrow> total_vms s = length ?vm_list"
  proof (intro allI impI)
    fix chg_number ttl_duration st0 s
    assume "fst (main e host_file chg_number ttl_duration (Some kws) st0) = Inr (Summary s)"
    from main_total_vms [OF this] obtain vm_list st4 st5 where
      "extract_vm_info e host_file (Some kws) st4 = (Inr (Some vm_list, None), st5)"
      and t: "total_vms s = length vm_list" by blast
    with ext [of st4] have "vm_list = ?vm_list" by simp
    with t show "total_vms s = length ?vm_list" by simp
  qed
  from 1 2 hex 3 4 5 show ?thesis by blast
qed

theorem excluded_vm_not_resolved_witness:
  "\<exists>vm_list excluded_vms st'.
     extract_vm_info keyword_env ''h'' (Some [''TMP'']) st0 = (Inr (Some vm_list, None), st')
     \<and> ''/s/B/y b-tmp'' \<notin> set vm_list
     \<and> ''b-tmp'' \<in> set excluded_vms
     \<and> last (printed st') = ''Excluded VMs based on keywords: '' @ join '', '' excluded_vms"
proof -
  have h1: "fs keyword_env inventory_file = File (''/s/A/x a'' @ nl @ ''/s/B/y b-tmp'' @ nl)"
    by code_simp
  have h2: "fs keyword_env ''h'' = File (''a'' @ nl @ ''b-tmp'')"
    by code_simp
  have h3: "''b-tmp'' \<in> set (splitlines (''a'' @ nl @ ''b-tmp''))" by code_simp
  have h4: "first_match ''b-tmp'' (file_lines (''/s/A/x a'' @ nl @ ''/s/B/y b-tmp'' @ nl)) = Some ''/s/B/y b-tmp''"
    by code_simp
  have h5: "''/s/B/y b-tmp'' \<noteq> []" by simp
  have h6: "''TMP'' \<in> set [''TMP'']" by simp
  have h7: "contains (lower ''TMP'') (lower ''/s/B/y b-tmp'')" by code_simp
  from excluded_vm_not_resolved [OF h1 h2 h3 h4 h5 h6 h7, of st0]
  show ?thesis by blast
qed

lemma first_match_None:
  "list_all (\<lambda>line. \<not> contains h line) L \<Longrightarrow> first_match h L = None"
  by (induction L) simp_all

text \<open>
  Claim C8: when the inventory and the host list can both be read, the resolution
  returns a list and no error; and a host name that no line of the inventory contains
  gets a warning and changes nothing else: the lists are those obtained for the other
  host names.
\<close>

theorem unmatched_hostname_skipped:
  assumes "fs e inventory_file = File inv_text"
    and "fs e host_file = File hosts"
  shows "\<exists>vm_list excluded_vms st'.
           resolve_loop e kws (splitlines hosts) [] [] st = (Inr (vm_list, excluded_vms), st')
           \<and> fst (extract_vm_info e host_file kws st) = Inr (Some vm_list, None)
           \<and> (\<forall>before hostname after.
                 splitlines hosts = before @ hostname # after
                 \<and> list_all (\<lambda>line. \<not> contains hostname line) (file_lines inv_text)
                 \<longrightarrow> warning hostname \<in> set (printed st')
                     \<and> fst (resolve_loop e kws (before @ after) [] [] st) = Inr (vm_list, excluded_vms))"
proof -
  let ?L = "file_lines inv_text"
  let ?hs = "splitlines hosts"
  let ?vm_list = "map (info_of ?L) (filter (kept ?L kws) ?hs)"
  let ?excluded = "filter (dropped ?L kws) ?hs"
  let ?st' = "st\<lparr>printed := printed st @ map warning (filter (\<lambda>h. \<not> found ?L h) ?hs)\<rparr>"
  have loop: "resolve_loop e kws ?hs [] [] st = (Inr (?vm_list, ?excluded), ?st')"
    by (simp add: resolve_loop_File [OF assms(1)])
  have ext: "fst (extract_vm_info e host_file kws st) = Inr (Some ?vm_list, None)"
    by (simp add: extract_vm_info_File [OF assms])
  have skip: "warning hostname \<in> set (printed ?st')
              \<and> fst (resolve_loop e kws (before @ after) [] [] st) = Inr (?vm_list, ?excluded)"
    if split: "?hs = before @ hostname # after"
      and nm: "list_all (\<lambda>line. \<not> contains hostname line) ?L"
    for before hostname after
  proof -
    from nm have "first_match hostname ?L = None" by (rule first_match_None)
    then have nf: "\<not> found ?L hostname" "\<not> kept ?L kws hostname" "\<not> dropped ?L kws hostname"
      by (simp_all add: found_def kept_def dropped_def)
    have "warning hostname \<in> set (printed ?st')"
      using nf(1) by (simp add: split)
    moreover have "fst (resolve_loop e kws (before @ after) [] [] st) = Inr (?vm_list, ?excluded)"
      using nf by (simp add: resolve_loop_File [OF assms(1)] split)
    ultimately show ?thesis ..
  qed
  from loop ext skip show ?thesis by blast
qed

theorem unmatched_hostname_skipped_witness:
  "warning ''zz'' \<in> set (printed (snd (resolve_loop unknown_host_env None [''zz'', ''a''] [] [] st0)))
   \<and> fst (resolve_loop unknown_host_env None [''a''] [] [] st0)
       = fst (resolve_loop unknown_host_env None [''zz'', ''a''] [] [] st0)
   \<and> fst (extract_vm_info unknown_host_env ''h'' None st0) = Inr (Some [''/s/A/x a''], None)"
proof -
  have h1: "fs unknown_host_env inventory_file = File (''/s/A/x a'' @ nl)" by code_simp
  have h2: "fs unknown_host_env ''h'' = File (''zz'' @ nl @ ''a'')" by code_simp
  have sp: "splitlines (''zz'' @ nl @ ''a'') = [] @ ''zz'' # [''a'']" by code_simp
  have nm: "list_all (\<lambda>line. \<not> contains ''zz'' line) (file_lines (''/s/A/x a'' @ nl))" by code_simp
  have v: "fst (extract_vm_info unknown_host_env ''h'' None st0) = Inr (Some [''/s/A/x a''], None)"
    by code_simp
  from unmatched_hostname_skipped [OF h1 h2, of None st0] obtain vm_list excluded_vms st' where
    loop: "resolve_loop unknown_host_env None (splitlines (''zz'' @ nl @ ''a'')) [] [] st0
             = (Inr (vm_list, excluded_vms), st')"
    and skip: "\<forall>before hostname after.
                 splitlines (''zz'' @ nl @ ''a'') = before @ hostname # after
                 \<and> list_all (\<lambda>line. \<not> contains hostname line) (file_lines (''/s/A/x a'' @ nl))
                 \<longrightarrow> warning hostname \<in> set (printed st')
                     \<and> fst (resolve_loop unknown_host_env None (before @ after) [] [] st0) = Inr (vm_list, excluded_vms)"
    by blast
  from skip sp nm have "warning ''zz'' \<in> set (printed st')
      \<and> fst (resolve_loop unknown_host_env None ([] @ [''a'']) [] [] st0) = Inr (vm_list, excluded_vms)"
    by blast
  moreover have "splitlines (''zz'' @ nl @ ''a'') = [''zz'', ''a'']" using sp by simp
  ultimately show ?thesis using loop v by simp
qed

lemma warning_inj: "warning a = warning b \<Longrightarrow> a = b"
  by (simp add: warning_def)

lemma warning_not_excluded_line:
  "warning h \<noteq> ''Excluded VMs based on keywords: '' @ xs"
  by (simp add: warning_def)

lemma contains_Nil [simp]: "contains [] s"
  by (cases s) simp_all

text \<open>
  Claim C10, for an inventory whose first line is not blank and holds no exclusion
  keyword: the empty host name of a blank line of the host list matches the first line
  of the inventory, so that \<open>get_vm_info\<close> returns that line stripped, the line is in
  the resolved list, and no warning is printed for the empty host name.
\<close>

theorem blank_hostname_resolves_to_first_line:
  assumes "fs e inventory_file = File inv_text"
    and "fs e host_file = File hosts"
    and "[] \<in> set (splitlines hosts)"
    and "file_lines inv_text = first_line # others"
    and "strip first_line \<noteq> []"
    and "\<not> excluded_by kws (strip first_line)"
  shows "get_vm_info e [] inventory_file = Inr (Some (strip first_line))
         \<and> (\<exists>vm_list new st'.
               extract_vm_info e host_file kws st = (Inr (Some vm_list, None), st')
               \<and> strip first_line \<in> set vm_list
               \<and> printed st' = printed st @ new
               \<and> warning [] \<notin> set new)"
proof -
  let ?L = "file_lines inv_text"
  let ?hs = "splitlines hosts"
  let ?vm_list = "map (info_of ?L) (filter (kept ?L kws) ?hs)"
  let ?excluded = "filter (dropped ?L kws) ?hs"
  let ?warnings = "map warning (filter (\<lambda>h. \<not> found ?L h) ?hs)"
  let ?new = "?warnings @ (if ?excluded \<noteq> [] then [''Excluded VMs based on keywords: '' @ join '', '' ?excluded] else [])"
  have fm: "first_match [] ?L = Some (strip first_line)"
    using assms(4) by simp
  then have g: "get_vm_info e [] inventory_file = Inr (Some (strip first_line))"
    using assms(1) by (simp add: get_vm_info_def)
  have fnd: "found ?L []" and info: "info_of ?L [] = strip first_line"
    using fm assms(5) by (simp_all add: found_def info_of_def)
  then have "kept ?L kws []" using assms(6) by (simp add: kept_def)
  with assms(3) info have mem: "strip first_line \<in> set ?vm_list" by force
  have nw: "warning [] \<notin> set ?warnings"
    using fnd by (auto dest: warning_inj)
  then have nn: "warning [] \<notin> set ?new"
    using warning_not_excluded_line [of "[]"] by auto
  obtain st' where ext: "extract_vm_info e host_file kws st = (Inr (Some ?vm_list, None), st')"
    and pr: "printed st' = printed st @ ?new"
    using extract_vm_info_File [OF assms(1,2), of kws st] by (simp add: Let_def print_def)
  from g ext mem pr nn show ?thesis by blast
qed

theorem blank_hostname_resolves_to_first_line_witness:
  "get_vm_info blank_host_env [] inventory_file = Inr (Some ''/s/A/x a'')
   \<and> (\<exists>vm_list new st'.
         extract_vm_info blank_host_env ''h'' None st0 = (Inr (Some vm_list, None), st')
         \<and> ''/s/A/x a'' \<in> set vm_list
         \<and> printed st' = printed st0 @ new
         \<and> warning [] \<notin> set new)"
proof -
  have h1: "fs blank_host_env inventory_file = File (''/s/A/x a'' @ nl)" by code_simp
  have h2: "fs blank_host_env ''h'' = File (''a'' @ nl @ nl)" by code_simp
  have h3: "[] \<in> set (splitlines (''a'' @ nl @ nl))" by code_simp
  have h4: "file_lines (''/s/A/x a'' @ nl) = (''/s/A/x a'' @ nl) # []" by code_simp
  have s: "strip (''/s/A/x a'' @ nl) = ''/s/A/x a''" by code_simp
  have h5: "strip (''/s/A/x a'' @ nl) \<noteq> []" unfolding s by simp
  have h6: "\<not> excluded_by None (strip (''/s/A/x a'' @ nl))" by (simp add: excluded_by_def)
  from blank_hostname_resolves_to_first_line [OF h1 h2 h3 h4 h5 h6, of st0]
  show ?thesis unfolding s .
qed

text \<open>
  When the first line of the inventory is blank, the empty host name matches it, the
  stripped line is empty and so counts as no match: the blank line of the host list is
  skipped with a warning.
\<close>

theorem blank_first_line_counterexample:
  "get_vm_info blank_inventory_env [] inventory_file = Inr (Some [])
   \<and> extract_vm_info blank_inventory_env ''h'' None st0
       = (Inr (Some [''/s/A/x a''], None), st0\<lparr>printed := [warning []]\<rparr>)"
  by code_simp

section \<open>When a run returns\<close>

text \<open>
  With three attempts and well-formed responses the executor returns a value unless the
  command holds a NUL character. So a run raises only through a date out of range, a
  process that cannot be run or whose output cannot be decoded, a response that does
  not parse or lacks a key, a malformed record, a file that cannot be read, or a NUL
  character in a command; without the others, \<open>main\<close> returns one of its two
  dictionaries or raises the \<open>ValueError\<close> of the last.
\<close>

lemma unrefused_Inr [simp]: "unrefused (Inr v)"
  by (simp add: unrefused_def)

lemma unrefused_Inl [simp]: "unrefused (Inl x) = (x = ValueError)"
  by (simp add: unrefused_def)

lemma responses_parseD:
  assumes "responses_parse e"
  obtains p out err where "proc e k cmd = Inr p" "stdout p = Some out" "stderr p = Some err"
  using assms unfolding responses_parse_def by metis

lemma responses_parse_show:
  "responses_parse e \<Longrightarrow> proc e k cmd = Inr p \<Longrightarrow> stdout p = Some raw \<Longrightarrow>
   returncode p = 0 \<Longrightarrow> prefix ''az vm show '' cmd \<Longrightarrow>
   \<exists>kvs rg d. json_loads e (strip raw) = Some (JObject kvs)
     \<and> map_of kvs ''resourceGroup'' = Some rg \<and> map_of kvs ''diskId'' = Some d"
  unfolding responses_parse_def
  by (erule allE [of _ k], erule allE [of _ cmd]) auto

lemma responses_parse_create:
  "responses_parse e \<Longrightarrow> proc e k cmd = Inr p \<Longrightarrow> stdout p = Some raw \<Longrightarrow>
   returncode p = 0 \<Longrightarrow> prefix ''az snapshot create '' cmd \<Longrightarrow>
   \<exists>kvs. json_loads e (strip raw) = Some (JObject kvs)"
  unfolding responses_parse_def
  by (erule allE [of _ k], erule allE [of _ cmd]) auto

lemma retry_loop_returns:
  assumes "responses_parse e"
    and "retry_loop e c m d as prev st = (r, st1)"
    and "as \<noteq> [] \<or> prev \<noteq> None"
    and "\<forall>p. prev = Some p \<longrightarrow> returncode p \<noteq> 0 \<and> stderr p \<noteq> None"
  shows "r = Inl ValueError
         \<or> (\<exists>out err rc. r = Inr (out, err, rc)
              \<and> (rc = 0 \<longrightarrow> (\<exists>k p raw. proc e k c = Inr p \<and> stdout p = Some raw
                                 \<and> out = strip raw \<and> returncode p = 0)))"
  using assms(2-4)
proof (induction as arbitrary: prev st)
  case Nil
  then show ?case by (auto split: option.splits)
next
  case (Cons a as)
  show ?case
  proof (cases "CHR 0x00 \<in> set c")
    case True
    with Cons.prems(1) show ?thesis by simp
  next
    case nul: False
    from assms(1) obtain p out err where p: "proc e (length (calls st)) c = Inr p"
      and out: "stdout p = Some out" and err: "stderr p = Some err"
      by (rule responses_parseD)
    show ?thesis
    proof (cases "returncode p = 0")
      case True
      with Cons.prems(1) nul p out err have "r = Inr (strip out, strip err, 0)"
        by (simp add: Let_def)
      with True p out show ?thesis by blast
    next
      case False
      from Cons.prems(1)
      have step: "retry_loop e c m d as (Some p)
                    (report_failure m d a err (print (failure_notice c a) (st\<lparr>calls := calls st @ [c]\<rparr>)))
                    = (r, st1)"
        by (simp only: retry_loop_failed_step [OF nul p False err])
      show ?thesis
      proof (rule Cons.IH [OF step])
        show "as \<noteq> [] \<or> Some p \<noteq> None" by simp
        show "\<forall>q. Some p = Some q \<longrightarrow> returncode q \<noteq> 0 \<and> stderr q \<noteq> None"
          using False err by simp
      qed
    qed
  qed
qed

lemma run_az_command_returns:
  assumes "responses_parse e" and "run_az_command e c 3 d st = (r, st1)"
  shows "r = Inl ValueError
         \<or> (\<exists>out err rc. r = Inr (out, err, rc)
              \<and> (rc = 0 \<longrightarrow> (\<exists>k p raw. proc e k c = Inr p \<and> stdout p = Some raw
                                 \<and> out = strip raw \<and> returncode p = 0)))"
proof -
  from assms(2) have run: "retry_loop e c 3 d [0..<nat 3] None st = (r, st1)"
    by (simp add: run_az_command_def)
  have "[0..<nat 3] \<noteq> [] \<or> (None :: proc_result option) \<noteq> None" by simp
  moreover have "\<forall>p. (None :: proc_result option) = Some p \<longrightarrow> returncode p \<noteq> 0 \<and> stderr p \<noteq> None"
    by simp
  ultimately show ?thesis by (rule retry_loop_returns [OF assms(1) run])
qed

lemma process_vm_returns:
  assumes "responses_parse e" and "\<forall>d. date_after e d \<noteq> None"
  shows "unrefused (fst (process_vm e resource_id vm_name resource_group disk_id chg_number timestamp lf user_id st))"
proof -
  let ?st4 = "write_log lf (''User ID: '' @ user_id)
               (write_log lf (''Resource group: '' @ fmt e resource_group)
                 (write_log lf (''Resource ID: '' @ resource_id)
                   (write_log lf (''Processing VM: '' @ vm_name) st)))"
  let ?cmd = "create_command e (snapshot_name_of chg_number vm_name timestamp) resource_group disk_id user_id"
  from assms(2) obtain expiration_date where d: "date_after e (TTL_DURATION ?st4) = Some expiration_date"
    by blast
  obtain r st5 where run: "run_az_command e ?cmd 3 5 ?st4 = (r, st5)"
    by (cases "run_az_command e ?cmd 3 5 ?st4")
  from run_az_command_returns [OF assms(1) run]
  consider "r = Inl ValueError"
    | out err rc where "r = Inr (out, err, rc)" "rc \<noteq> 0"
    | out err k p raw where "r = Inr (out, err, 0)" "proc e k ?cmd = Inr p" "stdout p = Some raw"
        "out = strip raw" "returncode p = 0"
    by blast
  then show ?thesis
  proof cases
    case 1
    then show ?thesis using d run by (simp add: process_vm_def Let_def)
  next
    case 2
    then show ?thesis using d run by (simp add: process_vm_def Let_def)
  next
    case 3
    have pre: "prefix ''az snapshot create '' ?cmd" by (simp add: create_command_def)
    from responses_parse_create [OF assms(1) 3(2,3,5) pre] 3(4)
    obtain kvs where "json_loads e out = Some (JObject kvs)" by auto
    then show ?thesis using 3 d run
      by (simp add: process_vm_def Let_def dict_get_def split: option.splits)
  qed
qed

lemma gather_returns:
  assumes "responses_parse e" and "\<forall>d. date_after e d \<noteq> None"
  shows "unrefused (fst (gather e chg_number timestamp lf user_id tasks st))"
proof (induction tasks arbitrary: st)
  case Nil
  show ?case by simp
next
  case (Cons t tasks)
  obtain resource_id vm_name resource_group disk_id
    where t: "t = (resource_id, vm_name, resource_group, disk_id)" by (cases t)
  obtain r st1 where
    pv: "process_vm e resource_id vm_name resource_group disk_id chg_number timestamp lf user_id st = (r, st1)"
    by (cases "process_vm e resource_id vm_name resource_group disk_id chg_number timestamp lf user_id st")
  with process_vm_returns [OF assms, of resource_id vm_name resource_group disk_id chg_number timestamp lf user_id st]
  have fr: "unrefused r" by simp
  obtain rs st2 where ga: "gather e chg_number timestamp lf user_id tasks st1 = (rs, st2)"
    by (cases "gather e chg_number timestamp lf user_id tasks st1")
  with Cons.IH [of st1] have frs: "unrefused rs" by simp
  show ?case using t pv ga fr frs
    by (cases r; cases rs) simp_all
qed

lemma fetch_details_returns:
  assumes "responses_parse e"
  shows "unrefused (fst (fetch_details e lf vms tasks failed st))"
proof (induction vms arbitrary: tasks failed st)
  case Nil
  show ?case by simp
next
  case (Cons vm vms)
  obtain resource_id vm_name where vm: "vm = (resource_id, vm_name)" by (cases vm)
  let ?cmd = "show_command resource_id"
  obtain r st1 where run: "run_az_command e ?cmd 3 5 st = (r, st1)"
    by (cases "run_az_command e ?cmd 3 5 st")
  from run_az_command_returns [OF assms run]
  consider "r = Inl ValueError"
    | out err rc where "r = Inr (out, err, rc)" "rc \<noteq> 0"
    | out err k p raw where "r = Inr (out, err, 0)" "proc e k ?cmd = Inr p" "stdout p = Some raw"
        "out = strip raw" "returncode p = 0"
    by blast
  then show ?case
  proof cases
    case 1
    then show ?thesis using vm run by simp
  next
    case 2
    then show ?thesis using vm run Cons.IH by simp
  next
    case 3
    have pre: "prefix ''az vm show '' ?cmd" by (simp add: show_command_def)
    from responses_parse_show [OF assms 3(2,3,5) pre] 3(4)
    obtain kvs rg d where
      "json_loads e out = Some (JObject kvs)" "map_of kvs ''resourceGroup'' = Some rg"
      "map_of kvs ''diskId'' = Some d"
      by auto
    then show ?thesis using 3 vm run Cons.IH by (simp add: subscript_def)
  qed
qed

lemma run_groups_returns:
  assumes "responses_parse e" and "\<forall>d. date_after e d \<noteq> None"
  shows "unrefused (fst (run_groups e chg_number timestamp lf user_id grouped s f st))"
proof (induction grouped arbitrary: s f st)
  case Nil
  show ?case by simp
next
  case (Cons grp grouped)
  obtain subscription_id vms where grp: "grp = (subscription_id, vms)" by (cases grp)
  let ?cmd = "''az account set --subscription '' @ subscription_id"
  obtain r st1 where run: "run_az_command e ?cmd 3 5 st = (r, st1)"
    by (cases "run_az_command e ?cmd 3 5 st")
  from run_az_command_returns [OF assms(1) run]
  consider "r = Inl ValueError" | out err rc where "r = Inr (out, err, rc)"
    by blast
  then show ?case
  proof cases
    case 1
    then show ?thesis using grp run by simp
  next
    case 2
    show ?thesis
    proof (cases "rc = 0")
      case False
      then show ?thesis using 2 grp run Cons.IH by simp
    next
      case True
      let ?st2 = "write_log lf (''Switched to subscription: '' @ subscription_id) st1"
      obtain rf st3 where fd: "fetch_details e lf vms [] f ?st2 = (rf, st3)"
        by (cases "fetch_details e lf vms [] f ?st2")
      with fetch_details_returns [OF assms(1), of lf vms "[]" f ?st2] have frf: "unrefused rf" by simp
      show ?thesis
      proof (cases rf)
        case (Inl x)
        then show ?thesis using frf True 2 grp run fd by simp
      next
        case (Inr tf)
        obtain tasks failed1 where tf: "tf = (tasks, failed1)" by (cases tf)
        obtain rg st4 where ga: "gather e chg_number timestamp lf user_id tasks st3 = (rg, st4)"
          by (cases "gather e chg_number timestamp lf user_id tasks st3")
        with gather_returns [OF assms, of chg_number timestamp lf user_id tasks st3]
        have frg: "unrefused rg" by simp
        show ?thesis
        proof (cases rg)
          case (Inl x)
          then show ?thesis using frg True 2 grp run fd Inr tf ga by simp
        next
          case results: (Inr results)
          obtain s2 f2 where co: "collect results s failed1 = (s2, f2)"
            by (cases "collect results s failed1")
          show ?thesis using True 2 grp run fd Inr tf ga results co Cons.IH by simp
        qed
      qed
    qed
  qed
qed

lemma group_loop_returns:
  "\<forall>line \<in> set vm_list. \<not> malformed line \<Longrightarrow> \<exists>g'. group_loop vm_list g = Inr g'"
proof (induction vm_list arbitrary: g)
  case Nil
  show ?case by simp
next
  case (Cons line rest)
  from Cons.prems have "\<not> malformed line" by simp
  then obtain r where "parse_line line = Inr r" using parse_line_wellformed by blast
  moreover obtain subscription_id resource_id vm_name
    where "r = (subscription_id, resource_id, vm_name)" by (cases r)
  moreover from Cons.prems have "\<forall>line \<in> set rest. \<not> malformed line" by simp
  from Cons.IH [OF this]
  have "\<exists>g'. group_loop rest (add_to_group g subscription_id (resource_id, vm_name)) = Inr g'" .
  ultimately show ?case by simp
qed

lemma main_returns:
  assumes "responses_parse e" and "\<forall>d. date_after e d \<noteq> None"
    and "fs e inventory_file = File inv_text" and "fs e host_file = File hosts"
    and "\<forall>h \<in> set (splitlines hosts).
           kept (file_lines inv_text) kws h \<longrightarrow> \<not> malformed (info_of (file_lines inv_text) h)"
  shows "unrefused (fst (main e host_file chg_number ttl_duration kws st))"
proof -
  let ?lf = "log_dir @ ''/'' @ ''snapshot_creation_log_'' @ clock e @ ''.txt''"
  let ?vm_list = "map (info_of (file_lines inv_text)) (filter (kept (file_lines inv_text) kws) (splitlines hosts))"
  let ?st3 = "write_log ?lf (''Snapshot Time-to-Live: '' @ str_int ttl_duration @ '' days'')
               (write_log ?lf (''CHG Number: '' @ chg_number) (st\<lparr>TTL_DURATION := ttl_duration\<rparr>))"
  let ?cmd = "''az account show --query user.name -o tsv''"
  have "\<forall>line \<in> set ?vm_list. \<not> malformed line" using assms(5) by auto
  then obtain grouped where g: "group_vms_by_subscription ?vm_list = Inr grouped"
    unfolding group_vms_by_subscription_def using group_loop_returns by blast
  obtain r st' where run: "run_az_command e ?cmd 3 5 ?st3 = (r, st')"
    by (cases "run_az_command e ?cmd 3 5 ?st3")
  from run_az_command_returns [OF assms(1) run]
  consider "r = Inl ValueError" | out err rc where "r = Inr (out, err, rc)"
    by blast
  then show ?thesis
  proof cases
    case 1
    then show ?thesis using run by (simp add: main_def Let_def get_current_user_id_def)
  next
    case 2
    define u where "u = (if rc \<noteq> 0 then None else Some (strip out))"
    define st4 where "st4 = (if rc \<noteq> 0 then print (''Failed to get current user ID. Error: '' @ err) st' else st')"
    have uid: "get_current_user_id e ?st3 = (Inr u, st4)"
      using run 2 by (simp add: get_current_user_id_def u_def st4_def)
    show ?thesis
    proof (cases "\<exists>user_id. u = Some user_id \<and> user_id \<noteq> []")
      case False
      then show ?thesis using uid
        by (cases u) (auto simp: main_def Let_def)
    next
      case True
      then obtain user_id where u: "u = Some user_id" "user_id \<noteq> []" by blast
      obtain st5 where ext: "extract_vm_info e host_file kws (write_log ?lf (''User ID: '' @ user_id) st4)
                               = (Inr (Some ?vm_list, None), st5)"
        using extract_vm_info_File [OF assms(3,4)] by blast
      obtain rr st6 where
        rg: "run_groups e chg_number (clock e) ?lf user_id grouped [] [] st5 = (rr, st6)"
        by (cases "run_groups e chg_number (clock e) ?lf user_id grouped [] [] st5")
      with run_groups_returns [OF assms(1,2), of chg_number "clock e" ?lf user_id grouped "[]" "[]" st5]
      have frr: "unrefused rr" by simp
      show ?thesis using uid u ext g rg frr
        by (cases "?vm_list = []"; cases rr) (auto simp: main_def Let_def)
    qed
  qed
qed

end
